(* ===== verification/Prelude.thy ===== *)
theory Prelude
  imports Main "HOL-Library.Word" "HOL-Library.Monad_Syntax" "HOL-Library.Multiset" "HOL-Library.AList"
begin

text \<open>
  Shared vocabulary of the development: bytes and checked slice reads (an index or slice out of
  range is a Go run-time panic, here the value \<open>None\<close>), the byte orders of
  \<^verbatim>\<open>encoding/binary\<close>, and the iteration order of a Go map, which the language leaves
  unspecified and which the model therefore takes from an arbitrary number: \<open>permute\<close> reaches
  every order of the keys and nothing else.
\<close>

unbundle bit_operations_syntax

named_theorems frame \<open>what an operation leaves unchanged\<close>
named_theorems codec \<open>byte encodings and their inverses\<close>

type_synonym byte = "8 word"
type_synonym bytes = "byte list"
type_synonym u16 = "16 word"
type_synonym u32 = "32 word"
type_synonym ptr = nat

section \<open>Checked reads of slices\<close>

definition at :: "'a list \<Rightarrow> nat \<Rightarrow> 'a option" where
  "at xs i = (if i < length xs then Some (xs ! i) else None)"

definition slice :: "'a list \<Rightarrow> nat \<Rightarrow> nat \<Rightarrow> 'a list option" where
  "slice xs i j = (if i \<le> j \<and> j \<le> length xs then Some (take (j - i) (drop i xs)) else None)"

text \<open>The Go builtin \<^verbatim>\<open>copy(dst[i:j], src)\<close> on a slice expression that is in range.\<close>

definition copy_into :: "'a list \<Rightarrow> nat \<Rightarrow> nat \<Rightarrow> 'a list \<Rightarrow> 'a list option" where
  "copy_into dst i j src =
     (if i \<le> j \<and> j \<le> length dst
      then let n = min (j - i) (length src)
           in Some (take i dst @ take n src @ drop (i + n) dst)
      else None)"

lemma at_Some [simp]: "i < length xs \<Longrightarrow> at xs i = Some (xs ! i)"
  by (simp add: at_def)

lemma slice_Some [simp]:
  "i \<le> j \<Longrightarrow> j \<le> length xs \<Longrightarrow> slice xs i j = Some (take (j - i) (drop i xs))"
  by (simp add: slice_def)

lemma copy_into_length: "copy_into dst i j src = Some r \<Longrightarrow> length r = length dst"
  by (auto simp: copy_into_def Let_def split: if_splits)

lemma drop_four:
  assumes "i + 4 \<le> length xs"
  shows "drop i xs = xs ! i # xs ! (i + 1) # xs ! (i + 2) # xs ! (i + 3) # drop (i + 4) xs"
proof -
  have "drop j xs = xs ! j # drop (Suc j) xs" if "j < length xs" for j
    using that by (simp add: Cons_nth_drop_Suc)
  from this [of i] this [of "i + 1"] this [of "i + 2"] this [of "i + 3"] show ?thesis
    using assms by (simp add: numeral_eq_Suc)
qed

section \<open>Byte orders\<close>

definition be16_put :: "u16 \<Rightarrow> bytes" where
  "be16_put v = [ucast (drop_bit 8 v), ucast v]"

definition be16_get :: "bytes \<Rightarrow> u16" where
  "be16_get b = push_bit 8 (ucast (b ! 0)) OR ucast (b ! 1)"

definition le32_put :: "u32 \<Rightarrow> bytes" where
  "le32_put v = [ucast v, ucast (drop_bit 8 v), ucast (drop_bit 16 v), ucast (drop_bit 24 v)]"

definition le32_get :: "bytes \<Rightarrow> u32" where
  "le32_get b = ucast (b ! 0) OR push_bit 8 (ucast (b ! 1))
     OR push_bit 16 (ucast (b ! 2)) OR push_bit 24 (ucast (b ! 3))"

lemma be16_put_length [simp]: "length (be16_put v) = 2"
  by (simp add: be16_put_def)

lemma le32_put_length [simp]: "length (le32_put v) = 4"
  by (simp add: le32_put_def)

lemma be16_get_put [codec, simp]: "be16_get (be16_put v) = v"
  unfolding be16_get_def be16_put_def
  by (rule bit_word_eqI) (auto simp: bit_simps)

lemma le32_get_put [codec, simp]: "le32_get (le32_put v) = v"
proof (rule bit_word_eqI)
  fix n :: nat
  assume n: "n < LENGTH(32)"
  then consider "n < 8" | "8 \<le> n" "n < 16" | "16 \<le> n" "n < 24" | "24 \<le> n" "n < 32"
    by fastforce
  then show "bit (le32_get (le32_put v)) n = bit v n"
    by cases (auto simp: le32_get_def le32_put_def bit_simps)
qed

section \<open>Iteration order of a Go map\<close>

text \<open>
  One number determines an order: its remainder by the number of remaining keys picks the next key
  and the quotient orders the rest. Every order is some number's order (\<open>permute_onto\<close>).
\<close>

definition remove_nth :: "nat \<Rightarrow> 'a list \<Rightarrow> 'a list" where
  "remove_nth i xs = take i xs @ drop (Suc i) xs"

lemma length_remove_nth [simp]: "i < length xs \<Longrightarrow> length (remove_nth i xs) = length xs - 1"
  by (simp add: remove_nth_def)

lemma mset_remove_nth: "i < length xs \<Longrightarrow> add_mset (xs ! i) (mset (remove_nth i xs)) = mset xs"
  unfolding remove_nth_def
  by (subst (3) id_take_nth_drop [of i xs]) simp_all

function permute :: "nat \<Rightarrow> 'a list \<Rightarrow> 'a list" where
  "permute c xs =
     (if xs = [] then []
      else xs ! (c mod length xs) # permute (c div length xs) (remove_nth (c mod length xs) xs))"
  by pat_completeness auto
termination
  by (relation "measure (\<lambda>(c, xs). length xs)") auto

declare permute.simps [simp del]

lemma permute_Nil [simp]: "permute c [] = []"
  by (simp add: permute.simps)

lemma permute_mset [simp]: "mset (permute c xs) = mset xs"
proof (induction c xs rule: permute.induct)
  case (1 c xs)
  show ?case
  proof (cases "xs = []")
    case False
    then show ?thesis
      using "1.IH" mset_remove_nth [of "c mod length xs" xs]
      by (simp add: permute.simps [of c xs])
  qed simp
qed

lemma permute_set [simp]: "set (permute c xs) = set xs"
  by (metis permute_mset set_mset_mset)

lemma permute_length [simp]: "length (permute c xs) = length xs"
  by (metis permute_mset size_mset)

lemma permute_distinct [simp]: "distinct (permute c xs) = distinct xs"
  by (metis permute_mset mset_eq_imp_distinct_iff)

lemma permute_zero [simp]: "permute 0 xs = xs"
proof (induction xs)
  case (Cons x xs)
  then show ?case by (subst permute.simps) (simp add: remove_nth_def)
qed simp

lemma permute_singleton [simp]: "permute c [x] = [x]"
  by (subst permute.simps) (simp add: remove_nth_def)

text \<open>Every order of the keys is the order of some number, so quantifying over it loses nothing.\<close>

lemma permute_onto: "mset ys = mset xs \<Longrightarrow> \<exists>c. permute c xs = ys"
proof (induction ys arbitrary: xs)
  case (Cons y ys)
  then have "y \<in> set xs" by (metis list.set_intros(1) set_mset_mset)
  then obtain i where i: "i < length xs" "xs ! i = y" by (auto simp: in_set_conv_nth)
  have "add_mset y (mset (remove_nth i xs)) = add_mset y (mset ys)"
    using mset_remove_nth [OF i(1)] i(2) Cons.prems by simp
  then obtain c where c: "permute c (remove_nth i xs) = ys" using Cons.IH by fastforce
  have "permute (c * length xs + i) xs = y # ys"
    using i c by (subst permute.simps) auto
  then show ?case by blast
qed simp

section \<open>Loops over a list as folds\<close>

lemma fold_frame: "(\<And>x s. obs (f x s) = obs s) \<Longrightarrow> obs (fold f xs s) = obs s"
  by (induction xs arbitrary: s) simp_all

lemma fold_inv: "(\<And>x s. x \<in> set xs \<Longrightarrow> I s \<Longrightarrow> I (f x s)) \<Longrightarrow> I s \<Longrightarrow> I (fold f xs s)"
  by (induction xs arbitrary: s) simp_all

text \<open>A loop whose body may panic.\<close>

fun fold_opt :: "('a \<Rightarrow> 's \<Rightarrow> 's option) \<Rightarrow> 'a list \<Rightarrow> 's \<Rightarrow> 's option" where
  "fold_opt f [] s = Some s"
| "fold_opt f (x # xs) s = f x s \<bind> fold_opt f xs"

lemma fold_opt_fold: "(\<And>x s. f x s = Some (g x s)) \<Longrightarrow> fold_opt f xs s = Some (fold g xs s)"
  by (induction xs arbitrary: s) simp_all

lemma find_cong_set: "find P xs = Some x \<Longrightarrow> x \<in> set xs \<and> P x"
  by (auto simp: find_Some_iff)

end
