(* ===== verification/Netip.thy ===== *)
theory Netip
  imports Prelude
begin

text \<open>
  The part of Go's \<^verbatim>\<open>net\<close> and \<^verbatim>\<open>net/netip\<close> packages the program uses: the address type
  \<^verbatim>\<open>netip.Addr\<close> (the program never attaches a zone, so an address is the zero value, four bytes or
  sixteen bytes), its classification predicates, the conversions to and from byte slices,
  \<^verbatim>\<open>net.IP.To4\<close>/\<^verbatim>\<open>To16\<close> and \<^verbatim>\<open>net.IPMask.Size\<close>. The predicates follow Go 1.25, the version
  \<^verbatim>\<open>go.mod\<close> requires: an IPv4-mapped IPv6 address is classified as the IPv4 address it carries.
\<close>

datatype addr = ZeroAddr | V4 bytes | V6 bytes

primrec addr_wf :: "addr \<Rightarrow> bool" where
  "addr_wf ZeroAddr = True"
| "addr_wf (V4 b) = (length b = 4)"
| "addr_wf (V6 b) = (length b = 16)"

definition v4InV6Prefix :: bytes where
  "v4InV6Prefix = [0, 0, 0, 0, 0, 0, 0, 0, 0, 0, 0xff, 0xff]"

lemma length_v4InV6Prefix [simp]: "length v4InV6Prefix = 12"
  by (simp add: v4InV6Prefix_def)

section \<open>Conversions\<close>

definition addrFrom16 :: "bytes \<Rightarrow> addr" where
  "addrFrom16 b = V6 b"

definition addrFromSlice :: "bytes \<Rightarrow> addr option" where
  "addrFromSlice b =
     (if length b = 4 then Some (V4 b) else if length b = 16 then Some (V6 b) else None)"

primrec as16 :: "addr \<Rightarrow> bytes" where
  "as16 ZeroAddr = replicate 16 0"
| "as16 (V4 b) = v4InV6Prefix @ b"
| "as16 (V6 b) = b"

primrec asSlice :: "addr \<Rightarrow> bytes" where
  "asSlice ZeroAddr = []"
| "asSlice (V4 b) = b"
| "asSlice (V6 b) = b"

text \<open>\<^verbatim>\<open>net.IP\<close> is a byte slice; \<^verbatim>\<open>nil\<close> is the empty one.\<close>

definition ip_To4 :: "bytes \<Rightarrow> bytes" where
  "ip_To4 ip =
     (if length ip = 4 then ip
      else if length ip = 16 \<and> take 12 ip = v4InV6Prefix then drop 12 ip
      else [])"

definition ip_To16 :: "bytes \<Rightarrow> bytes" where
  "ip_To16 ip =
     (if length ip = 4 then v4InV6Prefix @ ip else if length ip = 16 then ip else [])"

fun is4In6 :: "addr \<Rightarrow> bool" where
  "is4In6 (V6 b) = (take 12 b = v4InV6Prefix)"
| "is4In6 _ = False"

fun unmap :: "addr \<Rightarrow> addr" where
  "unmap (V6 b) = (if take 12 b = v4InV6Prefix then V4 (drop 12 b) else V6 b)"
| "unmap a = a"

definition isValid :: "addr \<Rightarrow> bool" where
  "isValid a = (a \<noteq> ZeroAddr)"

primrec is6 :: "addr \<Rightarrow> bool" where
  "is6 ZeroAddr = False"
| "is6 (V4 _) = False"
| "is6 (V6 _) = True"

definition ipv6Unspecified :: addr where
  "ipv6Unspecified = V6 (replicate 16 0)"

section \<open>Classification\<close>

definition isUnspecified :: "addr \<Rightarrow> bool" where
  "isUnspecified a = (a = V4 (replicate 4 0) \<or> a = ipv6Unspecified)"

definition isLoopback :: "addr \<Rightarrow> bool" where
  "isLoopback a =
     (case unmap a of
        ZeroAddr \<Rightarrow> False
      | V4 b \<Rightarrow> b ! 0 = 127
      | V6 b \<Rightarrow> b = replicate 15 0 @ [1])"

definition isMulticast :: "addr \<Rightarrow> bool" where
  "isMulticast a =
     (case unmap a of
        ZeroAddr \<Rightarrow> False
      | V4 b \<Rightarrow> b ! 0 AND 0xf0 = 0xe0
      | V6 b \<Rightarrow> b ! 0 = 0xff)"

definition isLinkLocalUnicast :: "addr \<Rightarrow> bool" where
  "isLinkLocalUnicast a =
     (case unmap a of
        ZeroAddr \<Rightarrow> False
      | V4 b \<Rightarrow> b ! 0 = 169 \<and> b ! 1 = 254
      | V6 b \<Rightarrow> b ! 0 = 0xfe \<and> b ! 1 AND 0xc0 = 0x80)"

definition isLinkLocalMulticast :: "addr \<Rightarrow> bool" where
  "isLinkLocalMulticast a =
     (case unmap a of
        ZeroAddr \<Rightarrow> False
      | V4 b \<Rightarrow> b ! 0 = 224 \<and> b ! 1 = 0 \<and> b ! 2 = 0
      | V6 b \<Rightarrow> b ! 0 = 0xff \<and> b ! 1 AND 0x0f = 0x02)"

section \<open>Masks\<close>

definition byte_bits :: "byte \<Rightarrow> bool list" where
  "byte_bits b = map (\<lambda>i. bit b (7 - i)) [0..<8]"

definition mask_bits :: "bytes \<Rightarrow> bool list" where
  "mask_bits m = concat (map byte_bits m)"

text \<open>\<^verbatim>\<open>IPMask.Size\<close>: the leading ones and the width, and (0, 0) unless the mask is ones then zeros.\<close>

definition mask_size :: "bytes \<Rightarrow> nat \<times> nat" where
  "mask_size m =
     (let bs = mask_bits m; n = length (takeWhile id bs)
      in if True \<in> set (drop n bs) then (0, 0) else (n, 8 * length m))"

definition bits_byte :: "bool list \<Rightarrow> byte" where
  "bits_byte bs = horner_sum of_bool 2 (rev bs)"

text \<open>\<^verbatim>\<open>net.CIDRMask(ones, 128)\<close>: nil outside the range.\<close>

definition cidrMask128 :: "nat \<Rightarrow> bytes" where
  "cidrMask128 ones =
     (if 128 < ones then []
      else map (\<lambda>i. bits_byte (map (\<lambda>j. 8 * i + j < ones) [0..<8])) [0..<16])"

section \<open>Facts\<close>

lemma addrFromSlice_wf: "addrFromSlice b = Some a \<Longrightarrow> addr_wf a"
  by (auto simp: addrFromSlice_def split: if_splits)

lemma unmap_wf [simp]: "addr_wf a \<Longrightarrow> addr_wf (unmap a)"
  by (cases a rule: unmap.cases) auto

lemma length_as16 [simp]: "addr_wf a \<Longrightarrow> length (as16 a) = 16"
  by (cases a) (auto simp: v4InV6Prefix_def)

lemma as16_addrFrom16 [codec, simp]: "as16 (addrFrom16 b) = b"
  by (simp add: addrFrom16_def)

lemma addrFromSlice_asSlice [codec]:
  "addr_wf a \<Longrightarrow> isValid a \<Longrightarrow> addrFromSlice (asSlice a) = Some a"
  by (cases a) (auto simp: addrFromSlice_def isValid_def)

lemma as16_unmap [codec]: "addr_wf a \<Longrightarrow> as16 (unmap a) = as16 a"
  by (cases a rule: unmap.cases) (auto simp: append_take_drop_id, metis append_take_drop_id)

lemma unmap_unmap [simp]: "unmap (unmap a) = unmap a"
  by (cases a rule: unmap.cases) auto

lemma classify_unmap [simp]:
  "isLoopback (unmap a) = isLoopback a" "isMulticast (unmap a) = isMulticast a"
  "isLinkLocalUnicast (unmap a) = isLinkLocalUnicast a"
  "isLinkLocalMulticast (unmap a) = isLinkLocalMulticast a"
  by (simp_all add: isLoopback_def isMulticast_def isLinkLocalUnicast_def isLinkLocalMulticast_def)

text \<open>An address that is not an IPv4 one in disguise is left alone, and its slice has 16 bytes.\<close>

lemma To4_Nil_unmap:
  "ip_To4 ip = [] \<Longrightarrow> addrFromSlice (ip_To16 ip) = Some a \<Longrightarrow> unmap a = V6 ip \<and> length ip = 16"
  by (auto simp: ip_To4_def ip_To16_def addrFromSlice_def v4InV6Prefix_def split: if_splits)

lemma mask_size_128: "mask_size (cidrMask128 128) = (128, 128)"
proof -
  have b: "bits_byte (replicate 8 True) = 0xff"
    by (simp add: bits_byte_def numeral_eq_Suc)
  have "cidrMask128 128 = replicate 16 0xff"
    unfolding cidrMask128_def using b
    by (auto simp: upt_rec numeral_eq_Suc)
  moreover have "byte_bits 0xff = replicate 8 True"
    by (simp add: byte_bits_def upt_rec numeral_eq_Suc)
  moreover have "concat (replicate n (replicate 8 True)) = replicate (8 * n) True" for n
    by (induction n) (simp_all add: replicate_add)
  ultimately show ?thesis
    by (simp add: mask_size_def mask_bits_def Let_def takeWhile_replicate)
qed

end
