(* ===== verification/Platform.thy ===== *)
theory Platform
  imports Netip
begin

text \<open>
  The boundary of the program: what it asks of the kernel and of the packages that are not part of
  the repository (\<^verbatim>\<open>golang.org/x/sys/unix\<close>, \<^verbatim>\<open>github.com/vishvananda/netlink\<close>, the JSON decoder).
  The record \<open>os\<close> is a parameter of every definition that crosses this boundary. Each answer may
  depend on the number of interactions that came before it, so one value of type \<open>os\<close> describes one
  arbitrary run of the outside world: any call may succeed or fail, at any time, with any error, and
  two equal questions may get different answers. The theorems hold for all of them.
  The numbers below are the Linux constants of the same names.
\<close>

section \<open>Constants\<close>

abbreviation IPPROTO_ICMPV6 :: int where "IPPROTO_ICMPV6 \<equiv> 58"
abbreviation IPPROTO_IPV6 :: int where "IPPROTO_IPV6 \<equiv> 41"
abbreviation IPPROTO_RAW :: int where "IPPROTO_RAW \<equiv> 255"
abbreviation SOL_SOCKET :: int where "SOL_SOCKET \<equiv> 1"
abbreviation SO_REUSEADDR :: int where "SO_REUSEADDR \<equiv> 2"
abbreviation IPV6_CHECKSUM :: int where "IPV6_CHECKSUM \<equiv> 7"
abbreviation IPV6_UNICAST_HOPS :: int where "IPV6_UNICAST_HOPS \<equiv> 16"
abbreviation IPV6_MULTICAST_HOPS :: int where "IPV6_MULTICAST_HOPS \<equiv> 18"
abbreviation IPV6_MULTICAST_LOOP :: int where "IPV6_MULTICAST_LOOP \<equiv> 19"
abbreviation IPV6_V6ONLY :: int where "IPV6_V6ONLY \<equiv> 26"
abbreviation IPV6_RECVPKTINFO :: int where "IPV6_RECVPKTINFO \<equiv> 49"
abbreviation IPV6_PKTINFO :: int where "IPV6_PKTINFO \<equiv> 50"
abbreviation IPV6_RECVHOPLIMIT :: int where "IPV6_RECVHOPLIMIT \<equiv> 51"
abbreviation IPV6_HOPLIMIT :: int where "IPV6_HOPLIMIT \<equiv> 52"
abbreviation ETH_P_ALL :: u16 where "ETH_P_ALL \<equiv> 3"
abbreviation AF_INET6 :: int where "AF_INET6 \<equiv> 10"
abbreviation RT_TABLE_MAIN :: int where "RT_TABLE_MAIN \<equiv> 254"
abbreviation RTPROT_STATIC :: int where "RTPROT_STATIC \<equiv> 4"
abbreviation SCOPE_LINK :: int where "SCOPE_LINK \<equiv> 253"
abbreviation SCOPE_UNIVERSE :: int where "SCOPE_UNIVERSE \<equiv> 0"
abbreviation NTF_PROXY :: int where "NTF_PROXY \<equiv> 8"
abbreviation NUD_REACHABLE :: int where "NUD_REACHABLE \<equiv> 2"
abbreviation NUD_STALE :: int where "NUD_STALE \<equiv> 4"
abbreviation NUD_DELAY :: int where "NUD_DELAY \<equiv> 8"
abbreviation NUD_PROBE :: int where "NUD_PROBE \<equiv> 16"
abbreviation NUD_FAILED :: int where "NUD_FAILED \<equiv> 32"
abbreviation NUD_NOARP :: int where "NUD_NOARP \<equiv> 64"
abbreviation NUD_PERMANENT :: int where "NUD_PERMANENT \<equiv> 128"
abbreviation IFF_RUNNING :: int where "IFF_RUNNING \<equiv> 64"
abbreviation IFA_F_TENTATIVE :: int where "IFA_F_TENTATIVE \<equiv> 64"
abbreviation RTM_DELLINK :: int where "RTM_DELLINK \<equiv> 17"
abbreviation RTM_DELROUTE :: int where "RTM_DELROUTE \<equiv> 25"
abbreviation RTM_NEWNEIGH :: int where "RTM_NEWNEIGH \<equiv> 28"

section \<open>Data exchanged with the outside\<close>

datatype errno = ENOENT | ESRCH | EBADF | EINTR | OtherErr nat

datatype clock = CLOCK_MONOTONIC_COARSE | CLOCK_MONOTONIC

datatype sockspec = UdpSocket | RawICMPv6Socket | PacketSocket u16

record link =
  lk_Index :: int
  lk_RawFlags :: int

record neigh =
  ng_LinkIndex :: int
  ng_Family :: int
  ng_State :: int
  ng_Flags :: int
  ng_IP :: bytes

record ipnet =
  net_IP :: bytes
  net_Mask :: bytes

record route =
  rt_LinkIndex :: int
  rt_Dst :: "ipnet option"
  rt_Priority :: int
  rt_Table :: int
  rt_Scope :: int
  rt_Protocol :: int
  rt_Gw :: bytes

record kaddr =
  ka_IP :: bytes
  ka_Mask :: bytes
  ka_PreferedLft :: int
  ka_ValidLft :: int
  ka_Flags :: int

record cmsg =
  cm_Level :: int
  cm_Type :: int
  cm_Data :: bytes

record sockaddr6 =
  sa_Port :: int
  sa_Addr :: bytes
  sa_ZoneId :: u32

record sock_filter =
  sf_Code :: u16
  sf_Jt :: nat
  sf_Jf :: nat
  sf_K :: u32

record jsonIface =
  js_Ifname :: "string option"
  js_Master :: "bool option"
  js_NdproxyRouting :: "bool option"
  js_NdpFromLinkLocal :: "bool option"

record jsonGlobal =
  js_LogLevel :: "int option"

record jsonRoot =
  js_Global :: "jsonGlobal option"
  js_Interfaces :: "(string \<times> jsonIface) list"

section \<open>Calls that change the outside world\<close>

datatype call =
    BindToDevice int string
  | SetsockoptInt int int int int
  | BindInet6 int int
  | BindLinklayer int u16 int
  | Membership6 int bytes u32 bool
  | ICMPv6Filter int "u32 list"
  | AttachFilter int "sock_filter list"
  | PacketAllmulti int int
  | RecvDiscard int
  | Sendmsg int bytes cmsg sockaddr6
  | CloseFd int
  | NeighSet neigh
  | NeighDel neigh
  | RouteReplace route
  | RouteDel route
  | WriteFile string bytes

text \<open>What the trace of a run records: a socket that was opened, or a call with its outcome.\<close>

datatype eff = Opened int | Did call "errno option"

record os =
  os_order :: "nat \<Rightarrow> nat"
  os_call :: "nat \<Rightarrow> call \<Rightarrow> errno option"
  os_socket :: "nat \<Rightarrow> sockspec \<Rightarrow> errno + int"
  os_backlog :: "nat \<Rightarrow> int \<Rightarrow> nat"
  os_LinkByIndex :: "nat \<Rightarrow> int \<Rightarrow> errno + link"
  os_LinkByName :: "nat \<Rightarrow> string \<Rightarrow> errno + link"
  os_NeighList :: "nat \<Rightarrow> int \<Rightarrow> errno + neigh list"
  os_RouteList :: "nat \<Rightarrow> int \<Rightarrow> errno + route list"
  os_AddrList :: "nat \<Rightarrow> int \<Rightarrow> errno + kaddr list"
  os_HardwareAddr :: "nat \<Rightarrow> string \<Rightarrow> errno + bytes"
  os_ReadFile :: "nat \<Rightarrow> string \<Rightarrow> errno + bytes"
  os_Unmarshal :: "bytes \<Rightarrow> errno + jsonRoot"
  os_ClockGettime :: "nat \<Rightarrow> clock \<Rightarrow> errno + int"

section \<open>The kernel tables a trace leads to\<close>

text \<open>
  The documented effect of the netlink calls on the two tables the program manages, read off a trace.
  A successful \<^verbatim>\<open>NeighSet\<close> of a proxy entry adds it, a \<^verbatim>\<open>NeighDel\<close> removes it (also when the kernel
  answers that it is not there). The main routing table has one entry per prefix and metric: a
  successful \<^verbatim>\<open>RouteReplace\<close> takes it over, whatever link it pointed to, and a \<^verbatim>\<open>RouteDel\<close> removes it
  only if it points to the link the call names.
\<close>

abbreviation is_proxy :: "neigh \<Rightarrow> bool" where
  "is_proxy n \<equiv> ng_Flags n AND NTF_PROXY \<noteq> 0"

type_synonym proxies = "(bytes \<times> int) set"
type_synonym routes = "bytes \<times> bytes \<times> int \<Rightarrow> int option"

fun proxy_step :: "eff \<Rightarrow> proxies \<Rightarrow> proxies" where
  "proxy_step (Did (NeighSet n) None) T =
     (if is_proxy n then insert (ng_IP n, ng_LinkIndex n) T else T)"
| "proxy_step (Did (NeighDel n) r) T =
     (if is_proxy n \<and> r \<in> {None, Some ENOENT, Some ESRCH} then T - {(ng_IP n, ng_LinkIndex n)} else T)"
| "proxy_step _ T = T"

definition proxy_table :: "eff list \<Rightarrow> proxies" where
  "proxy_table tr = fold proxy_step tr {}"

definition route_key :: "route \<Rightarrow> bytes \<times> bytes \<times> int" where
  "route_key r =
     (case rt_Dst r of None \<Rightarrow> ([], [], rt_Priority r)
      | Some d \<Rightarrow> (net_IP d, net_Mask d, rt_Priority r))"

fun route_step :: "eff \<Rightarrow> routes \<Rightarrow> routes" where
  "route_step (Did (RouteReplace r) None) T = T(route_key r \<mapsto> rt_LinkIndex r)"
| "route_step (Did (RouteDel r) e) T =
     (if e \<in> {None, Some ESRCH} \<and> T (route_key r) = Some (rt_LinkIndex r)
      then T(route_key r := None) else T)"
| "route_step _ T = T"

definition route_table :: "eff list \<Rightarrow> routes" where
  "route_table tr = fold route_step tr Map.empty"

text \<open>The calls of a trace, without their outcomes.\<close>

definition calls :: "eff list \<Rightarrow> call list" where
  "calls tr = concat (map (\<lambda>e. case e of Opened _ \<Rightarrow> [] | Did c _ \<Rightarrow> [c]) tr)"

text \<open>The descriptors a trace leaves open, as a multiset: opened ones less closed ones.\<close>

fun fd_step :: "eff \<Rightarrow> int multiset \<Rightarrow> int multiset" where
  "fd_step (Opened fd) M = add_mset fd M"
| "fd_step (Did (CloseFd fd) _) M = M - {#fd#}"
| "fd_step _ M = M"

definition open_fds :: "eff list \<Rightarrow> int multiset" where
  "open_fds tr = fold fd_step tr {#}"

lemma calls_append [simp]: "calls (tr @ tr') = calls tr @ calls tr'"
  by (simp add: calls_def)

lemma calls_single [simp]: "calls [Did c r] = [c]" "calls [Opened fd] = []" "calls [] = []"
  by (simp_all add: calls_def)

lemma proxy_table_append [simp]: "proxy_table (tr @ [e]) = proxy_step e (proxy_table tr)"
  by (simp add: proxy_table_def)

lemma route_table_append [simp]: "route_table (tr @ [e]) = route_step e (route_table tr)"
  by (simp add: route_table_def)

lemma open_fds_append [simp]: "open_fds (tr @ [e]) = fd_step e (open_fds tr)"
  by (simp add: open_fds_def)

lemma proxy_step_NeighSet [simp]:
  "proxy_step (Did (NeighSet n) r) T =
   (if r = None \<and> is_proxy n then insert (ng_IP n, ng_LinkIndex n) T else T)"
  by (cases r) auto

lemma route_step_RouteReplace [simp]:
  "route_step (Did (RouteReplace r) e) T = (if e = None then T(route_key r \<mapsto> rt_LinkIndex r) else T)"
  by (cases e) auto

text \<open>A kernel that accepts every call.\<close>

definition accepted :: "os \<Rightarrow> bool" where
  "accepted os = (\<forall>n c. os_call os n c = None)"

section \<open>A concrete outside world\<close>

text \<open>
  A router with an upstream link \<^verbatim>\<open>eth0\<close> (index 2) and a downstream link \<^verbatim>\<open>eth1\<close> (index 3), a kernel
  that accepts every call, and a configuration that names both: the concrete input of the witnesses.
\<close>

definition demo_json :: jsonRoot where
  "demo_json = \<lparr>js_Global = Some \<lparr>js_LogLevel = Some 5\<rparr>, js_Interfaces =
     [(''lan'', \<lparr>js_Ifname = Some ''eth1'', js_Master = Some False, js_NdproxyRouting = Some True,
                js_NdpFromLinkLocal = Some True\<rparr>),
      (''wan'', \<lparr>js_Ifname = Some ''eth0'', js_Master = Some True, js_NdproxyRouting = Some True,
                js_NdpFromLinkLocal = Some True\<rparr>)]\<rparr>"

definition demo_os :: os where
  "demo_os = \<lparr>os_order = (\<lambda>_. 0), os_call = (\<lambda>_ _. None), os_socket = (\<lambda>n _. Inr (int n + 3)),
     os_backlog = (\<lambda>_ _. 0),
     os_LinkByIndex = (\<lambda>_ i. Inr \<lparr>lk_Index = i, lk_RawFlags = IFF_RUNNING\<rparr>),
     os_LinkByName = (\<lambda>_ n. if n = ''eth0'' then Inr \<lparr>lk_Index = 2, lk_RawFlags = IFF_RUNNING\<rparr>
        else if n = ''eth1'' then Inr \<lparr>lk_Index = 3, lk_RawFlags = IFF_RUNNING\<rparr> else Inl (OtherErr 1)),
     os_NeighList = (\<lambda>_ _. Inr []), os_RouteList = (\<lambda>_ _. Inr []), os_AddrList = (\<lambda>_ _. Inr []),
     os_HardwareAddr = (\<lambda>_ n. if n = ''eth0'' then Inr [2, 0, 0, 0, 0, 0x10] else Inr [2, 0, 0, 0, 0, 0x11]),
     os_ReadFile = (\<lambda>_ _. Inr [48, 10]), os_Unmarshal = (\<lambda>_. Inr demo_json),
     os_ClockGettime = (\<lambda>_ _. Inr 1000)\<rparr>"

lemma demo_os_simps [simp]:
  "os_order demo_os n = 0" "os_call demo_os n c = None" "os_socket demo_os n k = Inr (int n + 3)"
  "os_NeighList demo_os n i = Inr []" "os_RouteList demo_os n i = Inr []"
  "os_AddrList demo_os n i = Inr []" "os_ClockGettime demo_os n ck = Inr 1000"
  "os_LinkByIndex demo_os n i = Inr \<lparr>lk_Index = i, lk_RawFlags = IFF_RUNNING\<rparr>"
  "os_ReadFile demo_os n f = Inr [48, 10]" "os_Unmarshal demo_os b = Inr demo_json"
  "os_backlog demo_os n i = 0"
  by (simp_all add: demo_os_def)

end
