(* ===== verification/Log.thy ===== *)
theory Log
  imports Platform
begin

text \<open>
  \<^verbatim>\<open>log.go\<close>: the level threshold, the choice between syslog and stderr, and the severity each level
  is logged with. A log line is recorded with its format string; the arguments are not rendered.
  The outcome of \<^verbatim>\<open>syslog.New\<close> is an argument of \<open>SetLogSyslog\<close>.
\<close>

abbreviation LogEmerg :: int where "LogEmerg \<equiv> 0"
abbreviation LogAlert :: int where "LogAlert \<equiv> 1"
abbreviation LogCrit :: int where "LogCrit \<equiv> 2"
abbreviation LogErr :: int where "LogErr \<equiv> 3"
abbreviation LogWarning :: int where "LogWarning \<equiv> 4"
abbreviation LogNotice :: int where "LogNotice \<equiv> 5"
abbreviation LogInfo :: int where "LogInfo \<equiv> 6"
abbreviation LogDebug :: int where "LogDebug \<equiv> 7"

datatype severity = Emerg | Alert | Crit | Err | Warning | Notice | Info | Debug

datatype sink = Syslog severity | Stderr

record logst =
  logLevel :: int
  logSyslog :: bool
  sysWriter :: bool
  log_lines :: "(sink \<times> string) list"

definition log_init :: logst where
  "log_init = \<lparr>logLevel = LogWarning, logSyslog = True, sysWriter = False, log_lines = []\<rparr>"

definition SetLogLevel :: "int \<Rightarrow> logst \<Rightarrow> logst" where
  "SetLogLevel level l = l\<lparr>logLevel := level AND 0x7\<rparr>"

definition SetLogSyslog :: "bool \<Rightarrow> errno option \<Rightarrow> logst \<Rightarrow> errno option \<times> logst" where
  "SetLogSyslog toSyslog new l =
     (let l = l\<lparr>logSyslog := toSyslog\<rparr>
      in if \<not> toSyslog then (None, l)
         else case new of Some e \<Rightarrow> (Some e, l) | None \<Rightarrow> (None, l\<lparr>sysWriter := True\<rparr>))"

definition severity_of :: "int \<Rightarrow> severity" where
  "severity_of level =
     (if level = LogEmerg then Emerg else if level = LogAlert then Alert
      else if level = LogCrit then Crit else if level = LogErr then Err
      else if level = LogWarning then Warning else if level = LogNotice then Notice
      else if level = LogInfo then Info else Debug)"

definition logf :: "int \<Rightarrow> string \<Rightarrow> logst \<Rightarrow> logst" where
  "logf level msg l =
     (if logLevel l < level then l
      else if logSyslog l \<and> sysWriter l
      then l\<lparr>log_lines := log_lines l @ [(Syslog (severity_of level), msg)]\<rparr>
      else l\<lparr>log_lines := log_lines l @ [(Stderr, msg)]\<rparr>)"

lemma logf_config [simp]:
  "logLevel (logf n m l) = logLevel l" "logSyslog (logf n m l) = logSyslog l"
  "sysWriter (logf n m l) = sysWriter l"
  by (simp_all add: logf_def)

lemma SetLogLevel_range: "0 \<le> logLevel (SetLogLevel n l) \<and> logLevel (SetLogLevel n l) \<le> 7"
  by (simp add: SetLogLevel_def AND_upper2)

end
