(* ===== verification/Iface.thy ===== *)
theory Iface
  imports Log
begin

text \<open>
  \<^verbatim>\<open>iface.go\<close>, \<^verbatim>\<open>common.go\<close> and the package variables: the \<open>Interface\<close> object, the state the engine
  goroutine owns, and the primitive effects every component is built from. Interface objects are
  shared by pointer (the \<^verbatim>\<open>interfaces\<close> map, the sockets and the timer closures all hold one), so they
  live in an explicit store \<open>heap\<close>. A socket object is immutable and owns a fresh \<^verbatim>\<open>done\<close> channel,
  so equality of socket records is the pointer equality the handlers test.
\<close>

section \<open>Data\<close>

datatype Mode = ModeDisabled | ModeRelay

record IPAddr =
  Addr :: addr
  PrefixLen :: byte
  PreferredLT :: u32
  ValidLT :: u32
  Tentative :: bool

record routerSock =
  rs_fd :: int
  rs_iface :: ptr
  rs_done :: nat

record dhcpSock =
  ds_fd :: int
  ds_iface :: ptr
  ds_done :: nat

record ndpSock =
  ns_fd :: int
  ns_pingFd :: int
  ns_iface :: ptr
  ns_done :: nat

record Interface =
  Name :: string
  Ifname :: string
  Ifindex :: int
  Running :: bool
  Master :: bool
  LearnRoutes :: bool
  NdpFromLinkLocal :: bool
  Inuse :: bool
  Addr6 :: "IPAddr list"
  cachedLL :: addr
  cachedLLValid :: bool
  HaveLinkLocal :: bool
  RA :: Mode
  DHCPv6 :: Mode
  NDP :: Mode
  router :: "routerSock option"
  dhcp :: "dhcpSock option"
  ndp :: "ndpSock option"
  raSent :: int
  rsTimer :: "nat option"
  rsTimerN :: int

text \<open>The zero value of the struct.\<close>

definition zeroInterface :: Interface where
  "zeroInterface = \<lparr>Name = '''', Ifname = '''', Ifindex = 0, Running = False, Master = False,
     LearnRoutes = False, NdpFromLinkLocal = False, Inuse = False, Addr6 = [], cachedLL = ZeroAddr,
     cachedLLValid = False, HaveLinkLocal = False, RA = ModeDisabled, DHCPv6 = ModeDisabled,
     NDP = ModeDisabled, router = None, dhcp = None, ndp = None, raSent = 0, rsTimer = None,
     rsTimerN = 0\<rparr>"

text \<open>The closures handed to \<^verbatim>\<open>time.AfterFunc\<close>, and the reader goroutines.\<close>

datatype timer = SolicitTimer ptr int | SweepTick | ReconcileTimer

datatype reader = RouterReader routerSock | DhcpReader dhcpSock | NdpReader ndpSock

type_synonym neighKey = "addr \<times> int"

text \<open>
  \<open>trace\<close> records the sockets that were opened and every call that changes something outside, with its
  result. A query (\<^verbatim>\<open>LinkByIndex\<close>, \<^verbatim>\<open>NeighList\<close>, \<^verbatim>\<open>ReadFile\<close>, the clock, the order of a map iteration) leaves
  no entry there; like every other interaction it advances the counter \<open>clk\<close>, so that a state equal
  to another one in \<open>clk\<close> too was reached without asking the outside anything.
\<close>

record st =
  heap :: "ptr \<Rightarrow> Interface"
  nextPtr :: ptr
  interfaces :: "(string \<times> ptr) list"
  mirroredNeighs :: "neighKey list"
  reconcileScheduled :: bool
  cfg_ConfigFile :: string
  cfg_LogLevelCmdline :: bool
  lg :: logst
  nextChan :: nat
  closedChans :: "nat list"
  panicked :: bool
  timers :: "(nat \<times> nat \<times> timer) list"
  nextTimer :: nat
  readers :: "reader list"
  trace :: "eff list"
  clk :: nat

definition st_init :: st where
  "st_init = \<lparr>heap = (\<lambda>_. zeroInterface), nextPtr = 0, interfaces = [], mirroredNeighs = [],
     reconcileScheduled = False, cfg_ConfigFile = '''', cfg_LogLevelCmdline = False, lg = log_init,
     nextChan = 0, closedChans = [], panicked = False, timers = [], nextTimer = 0, readers = [],
     trace = [], clk = 0\<rparr>"

section \<open>Primitive effects\<close>

definition tick :: "st \<Rightarrow> st" where
  "tick s = s\<lparr>clk := Suc (clk s)\<rparr>"

definition sys :: "os \<Rightarrow> call \<Rightarrow> st \<Rightarrow> errno option \<times> st" where
  "sys os c s =
     (os_call os (clk s) c, (tick s)\<lparr>trace := trace s @ [Did c (os_call os (clk s) c)]\<rparr>)"

definition sys_socket :: "os \<Rightarrow> sockspec \<Rightarrow> st \<Rightarrow> (errno + int) \<times> st" where
  "sys_socket os k s =
     (os_socket os (clk s) k,
      case os_socket os (clk s) k of
        Inl e \<Rightarrow> tick s
      | Inr fd \<Rightarrow> (tick s)\<lparr>trace := trace s @ [Opened fd]\<rparr>)"

definition logs :: "int \<Rightarrow> string \<Rightarrow> st \<Rightarrow> st" where
  "logs level msg s = s\<lparr>lg := logf level msg (lg s)\<rparr>"

definition Debugf :: "string \<Rightarrow> st \<Rightarrow> st" where "Debugf m s = logs LogDebug m s"
definition Infof :: "string \<Rightarrow> st \<Rightarrow> st" where "Infof m s = logs LogInfo m s"
definition Noticef :: "string \<Rightarrow> st \<Rightarrow> st" where "Noticef m s = logs LogNotice m s"
definition Warnf :: "string \<Rightarrow> st \<Rightarrow> st" where "Warnf m s = logs LogWarning m s"
definition Errorf :: "string \<Rightarrow> st \<Rightarrow> st" where "Errorf m s = logs LogErr m s"

text \<open>A write through an interface pointer.\<close>

definition upd :: "ptr \<Rightarrow> (Interface \<Rightarrow> Interface) \<Rightarrow> st \<Rightarrow> st" where
  "upd p f s = s\<lparr>heap := (heap s)(p := f (heap s p))\<rparr>"

text \<open>Closing a closed channel is a run-time panic.\<close>

definition close_chan :: "nat \<Rightarrow> st \<Rightarrow> st" where
  "close_chan c s =
     (if c \<in> set (closedChans s) then s\<lparr>panicked := True\<rparr>
      else s\<lparr>closedChans := closedChans s @ [c]\<rparr>)"

definition AfterFunc :: "nat \<Rightarrow> timer \<Rightarrow> st \<Rightarrow> nat \<times> st" where
  "AfterFunc ms k s =
     (nextTimer s, s\<lparr>timers := timers s @ [(nextTimer s, ms, k)], nextTimer := Suc (nextTimer s)\<rparr>)"

definition timer_Stop :: "nat \<Rightarrow> st \<Rightarrow> st" where
  "timer_Stop t s = s\<lparr>timers := filter (\<lambda>x. fst x \<noteq> t) (timers s)\<rparr>"

text \<open>
  The idiom \<^verbatim>\<open>if err := f(); err != nil { Errorf(msg); return err }\<close>, repeated: the calls run in order
  until the first one that fails, which is logged.
\<close>

fun seq_calls :: "os \<Rightarrow> (call \<times> string) list \<Rightarrow> st \<Rightarrow> errno option \<times> st" where
  "seq_calls os [] s = (None, s)"
| "seq_calls os ((c, msg) # cs) s =
     (case sys os c s of (e, s) \<Rightarrow>
        if e \<noteq> None then (e, Errorf msg s) else seq_calls os cs s)"

definition closeFD :: "os \<Rightarrow> int \<Rightarrow> st \<Rightarrow> st" where
  "closeFD os fd s = (if 0 \<le> fd then snd (sys os (CloseFd fd) s) else s)"

section \<open>Operations of iface.go and common.go\<close>

definition range_interfaces :: "os \<Rightarrow> st \<Rightarrow> ptr list \<times> st" where
  "range_interfaces os s = (permute (os_order os (clk s)) (map snd (interfaces s)), tick s)"

definition ifaceByIndex :: "os \<Rightarrow> int \<Rightarrow> st \<Rightarrow> ptr option \<times> st" where
  "ifaceByIndex os idx s =
     (case range_interfaces os s of (ps, s) \<Rightarrow> (find (\<lambda>p. Ifindex (heap s p) = idx) ps, s))"

definition ifaceByIfname :: "os \<Rightarrow> string \<Rightarrow> st \<Rightarrow> ptr option \<times> st" where
  "ifaceByIfname os name s =
     (case range_interfaces os s of (ps, s) \<Rightarrow> (find (\<lambda>p. Ifname (heap s p) = name) ps, s))"

definition setInterfaceDefaults :: "Interface \<Rightarrow> Interface" where
  "setInterfaceDefaults i = i\<lparr>RA := ModeRelay, DHCPv6 := ModeRelay, NDP := ModeRelay,
     LearnRoutes := True, NdpFromLinkLocal := True, cachedLLValid := False\<rparr>"

definition getMAC :: "os \<Rightarrow> ptr \<Rightarrow> st \<Rightarrow> (errno + bytes) \<times> st" where
  "getMAC os p s =
     (case os_HardwareAddr os (clk s) (Ifname (heap s p)) of
        Inl e \<Rightarrow> Inl e
      | Inr hw \<Rightarrow> if length hw < 6 then Inl (OtherErr 0) else Inr hw,
      tick s)"

definition getLinkLocalAddr :: "ptr \<Rightarrow> st \<Rightarrow> addr option \<times> st" where
  "getLinkLocalAddr p s =
     (if cachedLLValid (heap s p) then (Some (cachedLL (heap s p)), s)
      else case find (\<lambda>a. \<not> Tentative a \<and> is6 (Addr a) \<and> isLinkLocalUnicast (Addr a))
             (Addr6 (heap s p)) of
             Some a \<Rightarrow> (Some (Addr a), upd p (\<lambda>i. i\<lparr>cachedLL := Addr a, cachedLLValid := True\<rparr>) s)
           | None \<Rightarrow> (None, s))"

text \<open>A failed \<^verbatim>\<open>ClockGettime\<close> leaves the zeroed timespec as it is.\<close>

definition nowMono :: "os \<Rightarrow> st \<Rightarrow> int \<times> st" where
  "nowMono os s =
     (case os_ClockGettime os (clk s) CLOCK_MONOTONIC_COARSE of
        Inr t \<Rightarrow> (t, tick s)
      | Inl _ \<Rightarrow> (case os_ClockGettime os (clk (tick s)) CLOCK_MONOTONIC of
                    Inr t \<Rightarrow> (t, tick (tick s))
                  | Inl _ \<Rightarrow> (0, tick (tick s))))"

fun pickLinkAddress :: "u32 \<Rightarrow> IPAddr option \<Rightarrow> IPAddr list \<Rightarrow> IPAddr option" where
  "pickLinkAddress now best [] = best"
| "pickLinkAddress now best (a # as) =
     (if Tentative a \<or> (ValidLT a \<noteq> 0 \<and> ValidLT a \<le> now) then pickLinkAddress now best as
      else if PreferredLT a = 0 \<or> now < PreferredLT a then Some a
      else pickLinkAddress now
        (case best of
           None \<Rightarrow> Some a
         | Some b \<Rightarrow> if ValidLT a = 0 \<or> (ValidLT b \<noteq> 0 \<and> ValidLT b < ValidLT a) then Some a else best)
        as)"

definition relayLinkAddress :: "os \<Rightarrow> ptr \<Rightarrow> st \<Rightarrow> addr option \<times> st" where
  "relayLinkAddress os p s =
     (case nowMono os s of (t, s) \<Rightarrow>
        (map_option Addr (pickLinkAddress (word_of_int t) None (Addr6 (heap s p))), s))"

section \<open>What talking to the outside leaves alone\<close>

text \<open>
  An observation of the state that ignores the interaction counter, the log lines and the calls that
  neither open nor close a descriptor is unchanged by every operation that only talks to the outside. The
  lemmas of this interface are proved once, here and in the later theories, and hold of each field of the
  state by interpretation.
\<close>

locale quiet_obs =
  fixes obs :: "st \<Rightarrow> 'a"
  assumes obs_clk: "obs (s\<lparr>clk := n\<rparr>) = obs s"
    and obs_did: "(\<And>fd. c \<noteq> CloseFd fd) \<Longrightarrow> obs (s\<lparr>trace := trace s @ [Did c r]\<rparr>) = obs s"
    and obs_log: "obs (s\<lparr>lg := logf lv m (lg s)\<rparr>) = obs s"
begin

lemma obs_tick [simp]: "obs (tick s) = obs s"
  by (simp add: tick_def obs_clk)

lemma obs_sys_quiet [simp]:
  assumes "\<And>fd. c \<noteq> CloseFd fd"
  shows "obs (snd (sys os c s)) = obs s"
  using obs_did [OF assms, of "tick s"] by (simp add: sys_def tick_def obs_clk)

lemma obs_logs [simp]: "obs (logs n m s) = obs s"
  by (simp add: logs_def obs_log)

lemma obs_logf [simp]:
  "obs (Debugf m s) = obs s" "obs (Infof m s) = obs s" "obs (Noticef m s) = obs s"
  "obs (Warnf m s) = obs s" "obs (Errorf m s) = obs s"
  by (simp_all add: Debugf_def Infof_def Noticef_def Warnf_def Errorf_def)

lemma obs_seq_quiet:
  "\<forall>x \<in> set cs. \<forall>fd. fst x \<noteq> CloseFd fd \<Longrightarrow> obs (snd (seq_calls os cs s)) = obs s"
proof (induction cs arbitrary: s)
  case (Cons x cs)
  have "obs (snd (sys os (fst x) s)) = obs s" using Cons.prems by (intro obs_sys_quiet) auto
  then show ?case using Cons by (cases x) (simp add: case_prod_beta)
qed simp

lemma obs_range_interfaces [simp]: "obs (snd (range_interfaces os s)) = obs s"
  by (simp add: range_interfaces_def)

lemma obs_ifaceBy [simp]:
  "obs (snd (ifaceByIndex os i s)) = obs s" "obs (snd (ifaceByIfname os n s)) = obs s"
  by (simp_all add: ifaceByIndex_def ifaceByIfname_def case_prod_beta)

lemma obs_getMAC [simp]: "obs (snd (getMAC os p s)) = obs s"
  by (simp add: getMAC_def)

lemma obs_nowMono [simp]: "obs (snd (nowMono os s)) = obs s"
  by (simp add: nowMono_def split: sum.split)

lemma obs_relayLinkAddress [simp]: "obs (snd (relayLinkAddress os p s)) = obs s"
  by (simp add: relayLinkAddress_def case_prod_beta)

end

text \<open>Observations that ignore the whole trace.\<close>

locale world_obs = quiet_obs +
  assumes obs_trace: "obs (s\<lparr>trace := t\<rparr>) = obs s"
begin

lemma obs_sys [simp]: "obs (snd (sys os c s)) = obs s"
  by (simp add: sys_def obs_trace)

lemma obs_sys_socket [simp]: "obs (snd (sys_socket os k s)) = obs s"
  by (simp add: sys_socket_def obs_trace split: sum.split)

lemma obs_seq_calls [simp]: "obs (snd (seq_calls os cs s)) = obs s"
  by (induction cs arbitrary: s) (auto simp: case_prod_beta)

lemma obs_closeFD [simp]: "obs (closeFD os fd s) = obs s"
  by (simp add: closeFD_def)

end

text \<open>
  Everything the daemon itself owns: the state without the interaction counter, the record of the calls
  and the log lines.
\<close>

definition own_state :: "st \<Rightarrow> st" where
  "own_state s = s\<lparr>clk := 0, trace := [], lg := (lg s)\<lparr>log_lines := []\<rparr>\<rparr>"

interpretation own_obs: world_obs own_state
  by unfold_locales (simp_all add: own_state_def logf_def Let_def)

lemma own_stateD:
  assumes "own_state t = own_state s"
  shows "heap t = heap s" "nextPtr t = nextPtr s" "interfaces t = interfaces s"
    "mirroredNeighs t = mirroredNeighs s" "reconcileScheduled t = reconcileScheduled s"
    "nextChan t = nextChan s" "closedChans t = closedChans s" "panicked t = panicked s"
    "timers t = timers s" "nextTimer t = nextTimer s" "readers t = readers s"
  using assms by (cases t; cases s; simp add: own_state_def)+

interpretation heap_obs: world_obs heap by unfold_locales simp_all
interpretation nextPtr_obs: world_obs nextPtr by unfold_locales simp_all
interpretation interfaces_obs: world_obs interfaces by unfold_locales simp_all
interpretation mirroredNeighs_obs: world_obs mirroredNeighs by unfold_locales simp_all
interpretation reconcileScheduled_obs: world_obs reconcileScheduled by unfold_locales simp_all
interpretation configFile_obs: world_obs cfg_ConfigFile by unfold_locales simp_all
interpretation logLevelCmdline_obs: world_obs cfg_LogLevelCmdline by unfold_locales simp_all
interpretation nextChan_obs: world_obs nextChan by unfold_locales simp_all
interpretation closedChans_obs: world_obs closedChans by unfold_locales simp_all
interpretation panicked_obs: world_obs panicked by unfold_locales simp_all
interpretation timers_obs: world_obs timers by unfold_locales simp_all
interpretation nextTimer_obs: world_obs nextTimer by unfold_locales simp_all
interpretation readers_obs: world_obs readers by unfold_locales simp_all

lemma trace_simps [simp]:
  "trace (tick s) = trace s" "trace (logs n m s) = trace s" "trace (Debugf m s) = trace s"
  "trace (Infof m s) = trace s" "trace (Noticef m s) = trace s" "trace (Warnf m s) = trace s"
  "trace (Errorf m s) = trace s" "trace (upd p f s) = trace s"
  "trace (close_chan ch s) = trace s" "trace (timer_Stop t s) = trace s"
  "trace (snd (AfterFunc ms k s)) = trace s"
  "trace (snd (sys os c s)) = trace s @ [Did c (os_call os (clk s) c)]"
  "trace (snd (range_interfaces os s)) = trace s" "trace (snd (getMAC os p s)) = trace s"
  "trace (snd (ifaceByIndex os i s)) = trace s" "trace (snd (ifaceByIfname os nm s)) = trace s"
  by (simp_all add: tick_def logs_def Debugf_def Infof_def Noticef_def Warnf_def Errorf_def upd_def
      close_chan_def timer_Stop_def AfterFunc_def sys_def range_interfaces_def getMAC_def
      ifaceByIndex_def ifaceByIfname_def case_prod_beta)

lemma trace_nowMono [simp]: "trace (snd (nowMono os s)) = trace s"
  by (simp add: nowMono_def split: sum.split)

lemma trace_relayLinkAddress [simp]: "trace (snd (relayLinkAddress os p s)) = trace s"
  by (simp add: relayLinkAddress_def case_prod_beta)

lemma fst_sys [simp]: "fst (sys os c s) = os_call os (clk s) c"
  by (simp add: sys_def)

lemma upd_simps [simp]:
  "heap (upd p f s) = (heap s)(p := f (heap s p))" "nextPtr (upd p f s) = nextPtr s"
  "interfaces (upd p f s) = interfaces s" "mirroredNeighs (upd p f s) = mirroredNeighs s"
  "reconcileScheduled (upd p f s) = reconcileScheduled s" "nextChan (upd p f s) = nextChan s"
  "closedChans (upd p f s) = closedChans s" "panicked (upd p f s) = panicked s"
  "timers (upd p f s) = timers s" "nextTimer (upd p f s) = nextTimer s"
  "readers (upd p f s) = readers s" "clk (upd p f s) = clk s" "lg (upd p f s) = lg s"
  "cfg_ConfigFile (upd p f s) = cfg_ConfigFile s"
  "cfg_LogLevelCmdline (upd p f s) = cfg_LogLevelCmdline s"
  by (simp_all add: upd_def)

lemma clk_logs [simp]:
  "clk (logs n m s) = clk s" "clk (Debugf m s) = clk s" "clk (Infof m s) = clk s"
  "clk (Noticef m s) = clk s" "clk (Warnf m s) = clk s" "clk (Errorf m s) = clk s"
  by (simp_all add: logs_def Debugf_def Infof_def Noticef_def Warnf_def Errorf_def)

section \<open>Lookups\<close>

lemma set_range_interfaces [simp]: "set (fst (range_interfaces os s)) = snd ` set (interfaces s)"
  by (simp add: range_interfaces_def)

lemma mset_range_interfaces [simp]:
  "mset (fst (range_interfaces os s)) = mset (map snd (interfaces s))"
  by (simp add: range_interfaces_def del: mset_map)

lemma lookup_logs [simp]:
  "fst (range_interfaces os (Debugf m s)) = fst (range_interfaces os s)"
  "fst (ifaceByIndex os i (Debugf m s)) = fst (ifaceByIndex os i s)"
  "fst (nowMono os (Debugf m s)) = fst (nowMono os s)"
  "fst (relayLinkAddress os p (Debugf m s)) = fst (relayLinkAddress os p s)"
  by (simp_all add: range_interfaces_def ifaceByIndex_def nowMono_def relayLinkAddress_def case_prod_beta
      tick_def Debugf_def logs_def split: sum.split)

lemma ifaceByIndex_Some:
  "fst (ifaceByIndex os i s) = Some p \<Longrightarrow> p \<in> snd ` set (interfaces s) \<and> Ifindex (heap s p) = i"
  by (auto simp: ifaceByIndex_def case_prod_beta dest!: find_cong_set)

lemma ifaceByIndex_None:
  "fst (ifaceByIndex os i s) = None \<longleftrightarrow> (\<forall>p \<in> snd ` set (interfaces s). Ifindex (heap s p) \<noteq> i)"
  by (auto simp: ifaceByIndex_def case_prod_beta find_None_iff)

lemma ifaceByIfname_Some:
  "fst (ifaceByIfname os n s) = Some p \<Longrightarrow> p \<in> snd ` set (interfaces s) \<and> Ifname (heap s p) = n"
  by (auto simp: ifaceByIfname_def case_prod_beta dest!: find_cong_set)

lemma getMAC_length: "fst (getMAC os p s) = Inr hw \<Longrightarrow> 6 \<le> length hw"
  by (auto simp: getMAC_def split: sum.splits if_splits)

section \<open>The link address of a relayed request\<close>

definition usable :: "u32 \<Rightarrow> IPAddr \<Rightarrow> bool" where
  "usable now a = (\<not> Tentative a \<and> (ValidLT a = 0 \<or> now < ValidLT a))"

definition preferred :: "u32 \<Rightarrow> IPAddr \<Rightarrow> bool" where
  "preferred now a = (PreferredLT a = 0 \<or> now < PreferredLT a)"

text \<open>A lifetime of 0 is infinite.\<close>

definition outlives :: "IPAddr \<Rightarrow> IPAddr \<Rightarrow> bool" where
  "outlives a b = (ValidLT a = 0 \<or> (ValidLT b \<noteq> 0 \<and> ValidLT b \<le> ValidLT a))"

lemma outlives_refl [simp]: "outlives a a"
  by (simp add: outlives_def)

lemma outlives_trans: "outlives a b \<Longrightarrow> outlives b c \<Longrightarrow> outlives a c"
  by (auto simp: outlives_def)

lemma outlives_total: "outlives a b \<or> outlives b a"
  by (auto simp: outlives_def)

lemma pickLinkAddress_preferred:
  "find (\<lambda>a. usable now a \<and> preferred now a) as = Some a \<Longrightarrow> pickLinkAddress now best as = Some a"
  by (induction now best as rule: pickLinkAddress.induct)
    (auto simp: usable_def preferred_def not_le split: if_splits)

lemma pickLinkAddress_fallback:
  assumes "find (\<lambda>a. usable now a \<and> preferred now a) as = None"
    and "\<And>b. best = Some b \<Longrightarrow> usable now b"
  shows "(pickLinkAddress now best as = None \<longleftrightarrow> best = None \<and> (\<forall>a \<in> set as. \<not> usable now a)) \<and>
    (\<forall>r. pickLinkAddress now best as = Some r \<longrightarrow>
       (r \<in> set as \<or> best = Some r) \<and> usable now r \<and>
       (\<forall>a. a \<in> set as \<or> best = Some a \<longrightarrow> usable now a \<longrightarrow> outlives r a))"
  using assms
proof (induction as arbitrary: best)
  case (Cons a as)
  from Cons.prems(1) have P: "find (\<lambda>a. usable now a \<and> preferred now a) as = None"
    and na: "\<not> (usable now a \<and> preferred now a)"
    by (auto split: if_splits)
  show ?case
  proof (cases "usable now a")
    case False
    then have "pickLinkAddress now best (a # as) = pickLinkAddress now best as"
      by (auto simp: usable_def not_less)
    with False Cons.IH [OF P Cons.prems(2)] show ?thesis by auto
  next
    case True
    define nb where "nb = (case best of None \<Rightarrow> a | Some b \<Rightarrow>
      if ValidLT a = 0 \<or> (ValidLT b \<noteq> 0 \<and> ValidLT b < ValidLT a) then a else b)"
    have step: "pickLinkAddress now best (a # as) = pickLinkAddress now (Some nb) as"
      using True na by (auto simp: usable_def preferred_def nb_def not_le split: option.split)
    have nb: "usable now nb" "outlives nb a" "nb = a \<or> best = Some nb"
      "\<And>b. best = Some b \<Longrightarrow> outlives nb b"
      using True Cons.prems(2) by (auto simp: nb_def outlives_def not_less split: option.splits)
    have "usable now b" if "Some nb = Some b" for b using that nb(1) by simp
    from Cons.IH [OF P this] show ?thesis
      unfolding step using nb True by (auto intro: outlives_trans)
  qed
qed auto

text \<open>
  C36. \<^verbatim>\<open>relayLinkAddress\<close> returns the first address of the interface that is neither tentative nor
  expired and still preferred; if there is none, it returns an address that is neither tentative nor
  expired and that no other such address outlives; it returns nothing only if every address is
  tentative or expired.
\<close>

theorem relayLinkAddress_correct:
  fixes os :: os and p :: ptr and s :: st
  defines "now \<equiv> word_of_int (fst (nowMono os s)) :: u32"
    and "as \<equiv> Addr6 (heap s p)"
  shows "case find (\<lambda>a. usable now a \<and> preferred now a) as of
      Some a \<Rightarrow> fst (relayLinkAddress os p s) = Some (Addr a)
    | None \<Rightarrow> (case fst (relayLinkAddress os p s) of
        None \<Rightarrow> (\<forall>a \<in> set as. \<not> usable now a)
      | Some x \<Rightarrow> (\<exists>b \<in> set as. x = Addr b \<and> usable now b \<and>
                    (\<forall>a \<in> set as. usable now a \<longrightarrow> outlives b a)))"
proof -
  have eq: "fst (relayLinkAddress os p s) = map_option Addr (pickLinkAddress now None as)"
    by (simp add: relayLinkAddress_def case_prod_beta now_def as_def)
  show ?thesis
  proof (cases "find (\<lambda>a. usable now a \<and> preferred now a) as")
    case None
    with pickLinkAddress_fallback [OF None, of None] show ?thesis
      by (auto simp: eq split: option.split)
  next
    case (Some a)
    with pickLinkAddress_preferred [OF Some, of None] show ?thesis by (simp add: eq)
  qed
qed

section \<open>The cached link-local address\<close>

definition ll_addrs :: "Interface \<Rightarrow> addr set" where
  "ll_addrs i = {Addr a | a. a \<in> set (Addr6 i) \<and> \<not> Tentative a \<and> is6 (Addr a)
     \<and> isLinkLocalUnicast (Addr a)}"

definition cache_ok :: "Interface \<Rightarrow> bool" where
  "cache_ok i = (cachedLLValid i \<longrightarrow> cachedLL i \<in> ll_addrs i)"

lemma getLinkLocalAddr_state:
  "snd (getLinkLocalAddr p s) = s \<or>
   (\<exists>a. snd (getLinkLocalAddr p s) = upd p (\<lambda>i. i\<lparr>cachedLL := a, cachedLLValid := True\<rparr>) s
     \<and> a \<in> ll_addrs (heap s p))"
  by (auto simp: getLinkLocalAddr_def ll_addrs_def split: option.split dest!: find_cong_set)

lemma getLinkLocalAddr_correct:
  assumes "cache_ok (heap s p)"
  shows "case fst (getLinkLocalAddr p s) of None \<Rightarrow> ll_addrs (heap s p) = {} | Some a \<Rightarrow> a \<in> ll_addrs (heap s p)"
    and "cache_ok (heap (snd (getLinkLocalAddr p s)) p)"
  using assms
  by (auto simp: getLinkLocalAddr_def cache_ok_def ll_addrs_def find_None_iff
      split: option.split dest!: find_cong_set)

lemma getLinkLocalAddr_upd:
  "\<exists>a v. snd (getLinkLocalAddr p s) = upd p (\<lambda>i. i\<lparr>cachedLL := a, cachedLLValid := v\<rparr>) s"
proof -
  have "s = upd p (\<lambda>i. i\<lparr>cachedLL := cachedLL i, cachedLLValid := cachedLLValid i\<rparr>) s"
    by (simp add: upd_def)
  then have "\<exists>a v. s = upd p (\<lambda>i. i\<lparr>cachedLL := a, cachedLLValid := v\<rparr>) s"
    unfolding upd_def by blast
  then show ?thesis using getLinkLocalAddr_state [of p s] by metis
qed

text \<open>Everything of an interface but the cache.\<close>

definition core :: "Interface \<Rightarrow> Interface" where
  "core i = i\<lparr>cachedLL := ZeroAddr, cachedLLValid := False\<rparr>"

lemma coreD:
  assumes "core i = core j"
  shows "Name i = Name j" "Ifname i = Ifname j" "Ifindex i = Ifindex j" "Running i = Running j"
    "Master i = Master j" "LearnRoutes i = LearnRoutes j" "NdpFromLinkLocal i = NdpFromLinkLocal j"
    "Inuse i = Inuse j" "Addr6 i = Addr6 j" "HaveLinkLocal i = HaveLinkLocal j" "RA i = RA j"
    "DHCPv6 i = DHCPv6 j" "NDP i = NDP j" "router i = router j" "dhcp i = dhcp j" "ndp i = ndp j"
    "raSent i = raSent j" "rsTimer i = rsTimer j" "rsTimerN i = rsTimerN j"
  using assms by (cases i; cases j; simp add: core_def)+

text \<open>
  Observations that also ignore the link-local cache survive the operations that may fill it.
\<close>

locale quiet_cache = quiet_obs +
  assumes obs_cache: "obs (upd p (\<lambda>i. i\<lparr>cachedLL := a, cachedLLValid := v\<rparr>) s) = obs s"
begin

lemma obs_getLinkLocalAddr [simp]: "obs (snd (getLinkLocalAddr p s)) = obs s"
  using getLinkLocalAddr_upd [of p s] obs_cache by metis

end

locale cache_obs = world_obs + quiet_cache

text \<open>Everything the daemon owns but the link-local caches of its interfaces.\<close>

definition own_core :: "st \<Rightarrow> st" where
  "own_core s = (own_state s)\<lparr>heap := \<lambda>p. core (heap s p)\<rparr>"

interpretation own_core_cobs: cache_obs own_core
  by unfold_locales (auto simp: own_core_def own_state_def logf_def Let_def core_def upd_def fun_eq_iff)

lemma own_coreD:
  assumes "own_core t = own_core s"
  shows "own_state t = (own_state s)\<lparr>heap := heap t\<rparr>" and "core (heap t p) = core (heap s p)"
  using assms by (cases t; cases s; auto simp: own_core_def own_state_def dest: fun_cong [of _ _ p])+

interpretation core_cobs: cache_obs "\<lambda>s. core (heap s q)" for q
  by unfold_locales (simp_all add: core_def)
interpretation nextPtr_cobs: cache_obs nextPtr by unfold_locales simp_all
interpretation interfaces_cobs: cache_obs interfaces by unfold_locales simp_all
interpretation mirroredNeighs_cobs: cache_obs mirroredNeighs by unfold_locales simp_all
interpretation reconcileScheduled_cobs: cache_obs reconcileScheduled by unfold_locales simp_all
interpretation nextChan_cobs: cache_obs nextChan by unfold_locales simp_all
interpretation closedChans_cobs: cache_obs closedChans by unfold_locales simp_all
interpretation panicked_cobs: cache_obs panicked by unfold_locales simp_all
interpretation timers_cobs: cache_obs timers by unfold_locales simp_all
interpretation nextTimer_cobs: cache_obs nextTimer by unfold_locales simp_all
interpretation readers_cobs: cache_obs readers by unfold_locales simp_all

lemma trace_getLinkLocalAddr [simp]: "trace (snd (getLinkLocalAddr p s)) = trace s"
  using getLinkLocalAddr_upd [of p s] by auto

section \<open>A concrete state\<close>

text \<open>Object 0 is the upstream interface, object 1 the downstream one, both with open sockets.\<close>

definition demo_lan_addr :: addr where
  "demo_lan_addr = V6 [0x20, 1, 0x0d, 0xb8, 0, 1, 0, 0, 0, 0, 0, 0, 0, 0, 0, 1]"

definition demo_host :: addr where
  "demo_host = V6 [0x20, 1, 0x0d, 0xb8, 0, 1, 0, 0, 0, 0, 0, 0, 0, 0, 0, 0x42]"

definition demo_wan :: Interface where
  "demo_wan = (setInterfaceDefaults zeroInterface)\<lparr>Name := ''wan'', Ifname := ''eth0'', Ifindex := 2,
     Running := True, Master := True, Inuse := True,
     router := Some \<lparr>rs_fd = 3, rs_iface = 0, rs_done = 0\<rparr>,
     dhcp := Some \<lparr>ds_fd = 4, ds_iface = 0, ds_done = 1\<rparr>,
     ndp := Some \<lparr>ns_fd = 5, ns_pingFd = 6, ns_iface = 0, ns_done = 2\<rparr>\<rparr>"

definition demo_lan :: Interface where
  "demo_lan = (setInterfaceDefaults zeroInterface)\<lparr>Name := ''lan'', Ifname := ''eth1'', Ifindex := 3,
     Running := True, Inuse := True,
     Addr6 := [\<lparr>Addr = demo_lan_addr, PrefixLen = 64, PreferredLT = 0, ValidLT = 0, Tentative = False\<rparr>],
     router := Some \<lparr>rs_fd = 7, rs_iface = 1, rs_done = 3\<rparr>,
     dhcp := Some \<lparr>ds_fd = 8, ds_iface = 1, ds_done = 4\<rparr>,
     ndp := Some \<lparr>ns_fd = 9, ns_pingFd = 10, ns_iface = 1, ns_done = 5\<rparr>\<rparr>"

definition demo_st :: st where
  "demo_st = st_init\<lparr>heap := (\<lambda>_. zeroInterface)(0 := demo_wan, 1 := demo_lan), nextPtr := 2,
     interfaces := [(''wan'', 0), (''lan'', 1)], nextChan := 6\<rparr>"

lemmas demo_defs = demo_wan_def demo_lan_def demo_lan_addr_def demo_host_def zeroInterface_def
  setInterfaceDefaults_def st_init_def log_init_def

lemma demo_st_simps [simp]:
  "heap demo_st = (\<lambda>_. zeroInterface)(0 := demo_wan, 1 := demo_lan)"
  "interfaces demo_st = [(''wan'', 0), (''lan'', 1)]" "trace demo_st = []" "clk demo_st = 0"
  "mirroredNeighs demo_st = []" "closedChans demo_st = []" "nextPtr demo_st = 2"
  by (simp_all add: demo_st_def st_init_def)

text \<open>C36 at the downstream interface: its one address is picked.\<close>

theorem relayLinkAddress_correct_witness:
  "fst (relayLinkAddress demo_os 1 demo_st) = Some demo_lan_addr"
  using relayLinkAddress_correct [where os = demo_os and s = demo_st and p = 1]
  by (simp add: demo_defs usable_def preferred_def)

end
