(* ===== verification/Rawsock.thy ===== *)
theory Rawsock
  imports Iface
begin

text \<open>
  \<^verbatim>\<open>rawsock.go\<close>: ancillary data of sends and receives, socket addresses, the ICMPv6 type filter, and
  the two ways of sending an ICMPv6 packet. A control message is its level, type and data; the
  program fills and reads the data through the C structs, whose integers are little-endian here (the
  layout of the header itself belongs to \<^verbatim>\<open>golang.org/x/sys/unix\<close>).
\<close>

definition cmsgPktinfo :: "int \<Rightarrow> addr \<Rightarrow> cmsg" where
  "cmsgPktinfo ifindex src =
     \<lparr>cm_Level = IPPROTO_IPV6, cm_Type = IPV6_PKTINFO,
      cm_Data = (if is6 src then as16 src else replicate 16 0) @ le32_put (word_of_int ifindex)\<rparr>"

fun parseCmsg :: "cmsg \<Rightarrow> int \<times> int \<times> bool \<Rightarrow> int \<times> int \<times> bool" where
  "parseCmsg m (ifindex, hoplimit, hasHoplimit) =
     (if cm_Level m = IPPROTO_IPV6 \<and> cm_Type m = IPV6_PKTINFO \<and> 20 \<le> length (cm_Data m)
      then (uint (le32_get (take 4 (drop 16 (cm_Data m)))), hoplimit, hasHoplimit)
      else if cm_Level m = IPPROTO_IPV6 \<and> cm_Type m = IPV6_HOPLIMIT \<and> 4 \<le> length (cm_Data m)
      then (ifindex, sint (le32_get (take 4 (cm_Data m))), True)
      else (ifindex, hoplimit, hasHoplimit))"

text \<open>The argument is the outcome of \<^verbatim>\<open>unix.ParseSocketControlMessage\<close>.\<close>

definition parseCmsgs :: "errno + cmsg list \<Rightarrow> int \<times> int \<times> bool" where
  "parseCmsgs msgs =
     (case msgs of Inl _ \<Rightarrow> (0, 0, False) | Inr ms \<Rightarrow> fold parseCmsg ms (0, 0, False))"

definition sockaddrIn6 :: "addr \<Rightarrow> int \<Rightarrow> int \<Rightarrow> sockaddr6" where
  "sockaddrIn6 dest port ifindex =
     \<lparr>sa_Port = port, sa_Addr = as16 dest,
      sa_ZoneId = (if isLinkLocalUnicast dest \<or> isLinkLocalMulticast dest
                   then word_of_int ifindex else 0)\<rparr>"

section \<open>The ICMPv6 filter\<close>

definition icmp6FilterBlockAll :: "u32 list" where
  "icmp6FilterBlockAll = replicate 8 0xffffffff"

text \<open>\<^verbatim>\<open>f.Data[icmpType>>5] &^= 1 << (icmpType & 31)\<close>; an index beyond the array is a panic.\<close>

definition icmp6FilterSetPass :: "u32 list \<Rightarrow> nat \<Rightarrow> u32 list option" where
  "icmp6FilterSetPass f icmpType =
     (let i = icmpType div 32
      in if i < length f then Some (f[i := f ! i AND NOT (push_bit (icmpType mod 32) 1)]) else None)"

text \<open>The kernel drops a type whose bit is set.\<close>

definition filter_passes :: "u32 list \<Rightarrow> nat \<Rightarrow> bool" where
  "filter_passes f t = (\<not> bit (f ! (t div 32)) (t mod 32))"

section \<open>Socket helpers\<close>

definition bindToDevice :: "int \<Rightarrow> string \<Rightarrow> call" where
  "bindToDevice fd ifname = BindToDevice fd ifname"

definition setsockoptInt :: "int \<Rightarrow> int \<Rightarrow> int \<Rightarrow> int \<Rightarrow> call" where
  "setsockoptInt fd level opt val = SetsockoptInt fd level opt val"

definition joinMulticast6 :: "int \<Rightarrow> addr \<Rightarrow> int \<Rightarrow> bool \<Rightarrow> call" where
  "joinMulticast6 fd grp ifindex join = Membership6 fd (as16 grp) (word_of_int ifindex) join"

definition allIPv6Nodes :: addr where
  "allIPv6Nodes = V6 [0xff, 2, 0, 0, 0, 0, 0, 0, 0, 0, 0, 0, 0, 0, 0, 1]"

definition allIPv6Routers :: addr where
  "allIPv6Routers = V6 [0xff, 2, 0, 0, 0, 0, 0, 0, 0, 0, 0, 0, 0, 0, 0, 2]"

definition allDHCPv6Relays :: addr where
  "allDHCPv6Relays = V6 [0xff, 2, 0, 0, 0, 0, 0, 0, 0, 0, 0, 0, 0, 1, 0, 2]"

definition allDHCPv6Server :: addr where
  "allDHCPv6Server = V6 [0xff, 5, 0, 0, 0, 0, 0, 0, 0, 0, 0, 0, 0, 1, 0, 3]"

text \<open>\<^verbatim>\<open>copy(out[:], hw)\<close> into a zeroed array of six bytes.\<close>

definition hwAddrBytes6 :: "bytes \<Rightarrow> bytes" where
  "hwAddrBytes6 hw = take 6 hw @ replicate (6 - length hw) 0"

section \<open>Sending\<close>

definition sendICMP6FD :: "os \<Rightarrow> int \<Rightarrow> addr \<Rightarrow> int \<Rightarrow> addr \<Rightarrow> bytes \<Rightarrow> st \<Rightarrow> errno option \<times> st" where
  "sendICMP6FD os fd dest ifindex tryLinkLocalSrc payload s =
     (let sa = sockaddrIn6 dest IPPROTO_ICMPV6 ifindex;
          oob = cmsgPktinfo ifindex tryLinkLocalSrc
      in case sys os (Sendmsg fd payload oob sa) s of (e, s) \<Rightarrow>
           if e \<noteq> None then (e, Errorf ''Failed to send ICMPv6 to %s%%%s@%s: %v'' s)
           else (None, Debugf ''Sent %d bytes ICMPv6 to %s%%%s@%s'' s))"

definition sendICMP6WithLLSrc :: "os \<Rightarrow> int \<Rightarrow> ptr \<Rightarrow> addr \<Rightarrow> int \<Rightarrow> bytes \<Rightarrow> st \<Rightarrow> st" where
  "sendICMP6WithLLSrc os fd p dest ifindex payload s =
     (case (if NdpFromLinkLocal (heap s p)
            then (case getLinkLocalAddr p s of
                    (Some ll, s) \<Rightarrow> (ll, s) | (None, s) \<Rightarrow> (ZeroAddr, s))
            else (ZeroAddr, s)) of
        (src, s) \<Rightarrow> snd (sendICMP6FD os fd dest ifindex src payload s))"

section \<open>One round of a reader goroutine\<close>

text \<open>
  The three read loops have the same shape; one round of a loop ends the goroutine, goes on to the
  next round (after a pause or not), or posts a packet to the engine.
\<close>

datatype 'e readRound = ReadExit | ReadNext | ReadPause | ReadPost 'e

section \<open>Starting and stopping a service\<close>

definition make_chan :: "st \<Rightarrow> nat \<times> st" where
  "make_chan s = (nextChan s, s\<lparr>nextChan := Suc (nextChan s)\<rparr>)"

definition go :: "reader \<Rightarrow> st \<Rightarrow> st" where
  "go r s = s\<lparr>readers := readers s @ [r]\<rparr>"

section \<open>Facts\<close>

context quiet_obs
begin

lemma obs_sendICMP6FD [simp]: "obs (snd (sendICMP6FD os fd d i a b s)) = obs s"
  by (simp add: sendICMP6FD_def Let_def case_prod_beta)

end

lemma trace_sendICMP6FD [simp]:
  "trace (snd (sendICMP6FD os fd dest i src b s)) =
   trace s @ [Did (Sendmsg fd b (cmsgPktinfo i src) (sockaddrIn6 dest IPPROTO_ICMPV6 i))
      (fst (sendICMP6FD os fd dest i src b s))]"
  by (simp add: sendICMP6FD_def Let_def case_prod_beta)

text \<open>
  The interface index a send puts into its packet-info message is the one a receive reads back:
  parsing the message built by \<^verbatim>\<open>cmsgPktinfo\<close> gives the index (as an unsigned 32-bit number) and no
  hop limit, for every index and every source address.
\<close>

theorem cmsgPktinfo_roundtrip:
  assumes "addr_wf src"
  shows "parseCmsgs (Inr [cmsgPktinfo ifindex src]) = (ifindex mod 2 ^ 32, 0, False)"
  using assms by (auto simp: parseCmsgs_def cmsgPktinfo_def uint_word_of_int)

theorem cmsgPktinfo_roundtrip_witness:
  "parseCmsgs (Inr [cmsgPktinfo 7 allIPv6Nodes]) = (7, 0, False)"
  using cmsgPktinfo_roundtrip [of allIPv6Nodes 7] by (simp add: allIPv6Nodes_def)

lemma hwAddrBytes6_length [simp]: "length (hwAddrBytes6 hw) = 6"
  by (simp add: hwAddrBytes6_def)

lemma icmp6FilterSetPass_total: "length f = 8 \<Longrightarrow> t < 256 \<Longrightarrow> icmp6FilterSetPass f t \<noteq> None"
  by (simp add: icmp6FilterSetPass_def Let_def)

lemma icmp6FilterSetPass_length: "icmp6FilterSetPass f t = Some g \<Longrightarrow> length g = length f"
  by (auto simp: icmp6FilterSetPass_def Let_def split: if_splits)

text \<open>Passing one type changes nothing for the others.\<close>

lemma icmp6FilterSetPass_passes:
  assumes "icmp6FilterSetPass f t = Some g" "length f = 8" "u < 256"
  shows "filter_passes g u \<longleftrightarrow> u = t \<or> filter_passes f u"
proof (cases "u div 32 = t div 32")
  case True
  then have "u = t \<longleftrightarrow> u mod 32 = t mod 32" by (metis div_mult_mod_eq)
  with True assms show ?thesis
    by (auto simp: icmp6FilterSetPass_def filter_passes_def Let_def bit_simps split: if_splits)
next
  case False
  with assms show ?thesis
    by (auto simp: icmp6FilterSetPass_def filter_passes_def Let_def nth_list_update split: if_splits)
qed

lemma blockAll_blocks: "t < 256 \<Longrightarrow> \<not> filter_passes icmp6FilterBlockAll t"
proof -
  have m: "(0xffffffff :: u32) = mask 32" by (simp add: mask_numeral)
  assume "t < 256"
  then show ?thesis by (simp add: filter_passes_def icmp6FilterBlockAll_def m bit_simps)
qed

end
