(* ===== verification/Mirror.thy ===== *)
theory Mirror
  imports Rawsock
begin

text \<open>
  The kernel-facing half of \<^verbatim>\<open>netlink.go\<close>, with \<^verbatim>\<open>setProxyNDP\<close> of \<^verbatim>\<open>ndp.go\<close>: host routes, proxy-NDP
  entries, and \<^verbatim>\<open>ndpMirrorAddr\<close>, which keeps both for one address. The theorems read the two kernel
  tables off the trace of calls and show what mirroring an address, and undoing it, does to them.
\<close>

section \<open>proxy_ndp\<close>

definition is_space :: "byte \<Rightarrow> bool" where
  "is_space b = (b \<in> {9, 10, 11, 12, 13, 32})"

definition trimSpace :: "bytes \<Rightarrow> bytes" where
  "trimSpace b = rev (dropWhile is_space (rev (dropWhile is_space b)))"

definition proxy_ndp_path :: "string \<Rightarrow> string" where
  "proxy_ndp_path ifname = ''/proc/sys/net/ipv6/conf/'' @ ifname @ ''/proxy_ndp''"

definition setProxyNDP :: "os \<Rightarrow> string \<Rightarrow> bool \<Rightarrow> st \<Rightarrow> errno option \<times> st" where
  "setProxyNDP os ifname enable s =
     (let path = proxy_ndp_path ifname; want = (if enable then 49 else 48 :: byte)
      in case os_ReadFile os (clk s) path of
           Inr cur \<Rightarrow>
             (let c = trimSpace cur
              in if length c = 1 \<and> c ! 0 = want then (None, tick s)
                 else sys os (WriteFile path [want, 10]) (tick s))
         | Inl _ \<Rightarrow> sys os (WriteFile path [want, 10]) (tick s))"

section \<open>Routes and proxy entries\<close>

abbreviation ourRouteMetric :: int where "ourRouteMetric \<equiv> 1024"

definition setupRoute ::
  "os \<Rightarrow> addr \<Rightarrow> nat \<Rightarrow> int \<Rightarrow> addr option \<Rightarrow> int \<Rightarrow> bool \<Rightarrow> st \<Rightarrow> errno option \<times> st" where
  "setupRoute os addr prefixlen ifindex gw metric add s =
     (let dst = \<lparr>net_IP = asSlice addr, net_Mask = cidrMask128 prefixlen\<rparr>;
          route = \<lparr>rt_LinkIndex = ifindex, rt_Dst = Some dst, rt_Priority = metric,
                   rt_Table = RT_TABLE_MAIN, rt_Scope = SCOPE_LINK, rt_Protocol = 0, rt_Gw = []\<rparr>;
          route = (case gw of None \<Rightarrow> route
                   | Some g \<Rightarrow> route\<lparr>rt_Gw := asSlice g, rt_Scope := SCOPE_UNIVERSE\<rparr>)
      in if add then sys os (RouteReplace (route\<lparr>rt_Protocol := RTPROT_STATIC\<rparr>)) s
         else case sys os (RouteDel route) s of (e, s) \<Rightarrow>
           if e \<noteq> None \<and> e \<noteq> Some ESRCH then (e, s) else (None, s))"

definition setupProxyNeigh :: "os \<Rightarrow> addr \<Rightarrow> int \<Rightarrow> bool \<Rightarrow> st \<Rightarrow> errno option \<times> st" where
  "setupProxyNeigh os addr ifindex add s =
     (let n = \<lparr>ng_LinkIndex = ifindex, ng_Family = AF_INET6, ng_State = 0, ng_Flags = NTF_PROXY,
               ng_IP = asSlice addr\<rparr>
      in if add then sys os (NeighSet n) s
         else case sys os (NeighDel n) s of (e, s) \<Rightarrow>
           if e \<noteq> None \<and> e \<noteq> Some ENOENT \<and> e \<noteq> Some ESRCH then (e, s) else (None, s))"

definition probeNeighbor :: "os \<Rightarrow> addr \<Rightarrow> int \<Rightarrow> st \<Rightarrow> st" where
  "probeNeighbor os addr ifindex s =
     (let n = \<lparr>ng_LinkIndex = ifindex, ng_Family = AF_INET6, ng_State = NUD_PROBE, ng_Flags = 0,
               ng_IP = asSlice addr\<rparr>
      in case sys os (NeighSet n) s of (e, s) \<Rightarrow>
           if e \<noteq> None \<and> e \<noteq> Some ENOENT \<and> e \<noteq> Some ESRCH
           then Debugf ''probe neigh %s on ifindex %d: %v'' s else s)"

definition deleteFailedNeigh :: "os \<Rightarrow> addr \<Rightarrow> int \<Rightarrow> st \<Rightarrow> st" where
  "deleteFailedNeigh os addr ifindex s =
     (let n = \<lparr>ng_LinkIndex = ifindex, ng_Family = AF_INET6, ng_State = 0, ng_Flags = 0,
               ng_IP = asSlice addr\<rparr>
      in case sys os (NeighDel n) s of (e, s) \<Rightarrow>
           if e \<noteq> None \<and> e \<noteq> Some ENOENT \<and> e \<noteq> Some ESRCH
           then Debugf ''delete failed neigh %s on ifindex %d: %v'' s else s)"

section \<open>Mirroring an address\<close>

definition mirror_on :: "os \<Rightarrow> addr \<Rightarrow> int \<Rightarrow> bool \<Rightarrow> ptr \<Rightarrow> st \<Rightarrow> st" where
  "mirror_on os addr own add c s =
     (if Ifindex (heap s c) = own \<or> \<not> Master (heap s c) \<or> NDP (heap s c) \<noteq> ModeRelay then s
      else let s = (if add
                    then (case setProxyNDP os (Ifname (heap s c)) True s of (e, s) \<Rightarrow>
                            if e \<noteq> None then Debugf ''proxy_ndp on %s: %v'' s else s)
                    else s)
           in case setupProxyNeigh os addr (Ifindex (heap s c)) add s of (e, s) \<Rightarrow>
                if e \<noteq> None then Warnf ''proxy neigh %s on %s: %v'' s else s)"

definition ndpMirrorAddr :: "os \<Rightarrow> addr \<Rightarrow> ptr \<Rightarrow> bool \<Rightarrow> st \<Rightarrow> st" where
  "ndpMirrorAddr os addr p add s =
     (case range_interfaces os s of (cs, s) \<Rightarrow>
        (let s = fold (mirror_on os addr (Ifindex (heap s p)) add) cs s
         in if \<not> LearnRoutes (heap s p) \<or> isLinkLocalUnicast addr then s
            else case setupRoute os addr 128 (Ifindex (heap s p)) None ourRouteMetric add s of (e, s) \<Rightarrow>
                   if e \<noteq> None then Warnf ''route %s/128 via %s: %v'' s else s))"

abbreviation resolvedMask :: int where
  "resolvedMask \<equiv> NUD_REACHABLE OR NUD_STALE OR NUD_DELAY OR NUD_PROBE OR NUD_PERMANENT OR NUD_NOARP"

text \<open>The map \<^verbatim>\<open>mirroredNeighs\<close> only ever holds the value true: it is the list of its keys.\<close>

definition mirrored_add :: "neighKey \<Rightarrow> st \<Rightarrow> st" where
  "mirrored_add k s =
     (if k \<in> set (mirroredNeighs s) then s else s\<lparr>mirroredNeighs := mirroredNeighs s @ [k]\<rparr>)"

definition mirrored_del :: "neighKey \<Rightarrow> st \<Rightarrow> st" where
  "mirrored_del k s = s\<lparr>mirroredNeighs := removeAll k (mirroredNeighs s)\<rparr>"

definition unmirrorable :: "addr \<Rightarrow> bool" where
  "unmirrorable a = (isLoopback a \<or> isMulticast a \<or> isLinkLocalUnicast a)"

definition seed_one :: "os \<Rightarrow> ptr \<Rightarrow> neigh \<Rightarrow> st \<Rightarrow> st" where
  "seed_one os p n s =
     (if ng_State n AND resolvedMask = 0 then s
      else case addrFromSlice (ip_To16 (ng_IP n)) of
             None \<Rightarrow> s
           | Some a \<Rightarrow>
               (let addr = unmap a; key = (addr, Ifindex (heap s p))
                in if unmirrorable addr then s
                   else if key \<in> set (mirroredNeighs s) then s
                   else ndpMirrorAddr os addr p True (mirrored_add key s)))"

definition seedMirroredNeighbors :: "os \<Rightarrow> ptr \<Rightarrow> st \<Rightarrow> st" where
  "seedMirroredNeighbors os p s =
     (case os_LinkByIndex os (clk s) (Ifindex (heap s p)) of
        Inl _ \<Rightarrow> tick s
      | Inr link \<Rightarrow> (case os_NeighList os (clk (tick s)) (lk_Index link) of
                       Inl _ \<Rightarrow> tick (tick s)
                     | Inr neighs \<Rightarrow> fold (seed_one os p) neighs (tick (tick s))))"

definition range_mirrored :: "os \<Rightarrow> st \<Rightarrow> neighKey list \<times> st" where
  "range_mirrored os s = (permute (os_order os (clk s)) (mirroredNeighs s), tick s)"

text \<open>The interface's own addresses that are mirrored: the guard shared by several loops.\<close>

definition own_mirrorable :: "Interface \<Rightarrow> addr \<Rightarrow> bool" where
  "own_mirrorable i addr = (NDP i = ModeRelay \<and> \<not> isLoopback addr \<and> \<not> isMulticast addr
     \<and> (\<not> isLinkLocalUnicast addr \<or> LearnRoutes i))"

definition clear_own :: "os \<Rightarrow> ptr \<Rightarrow> IPAddr \<Rightarrow> st \<Rightarrow> st" where
  "clear_own os p cached s =
     (if own_mirrorable (heap s p) (Addr cached) then ndpMirrorAddr os (Addr cached) p False s else s)"

definition clear_key :: "os \<Rightarrow> ptr \<Rightarrow> neighKey \<Rightarrow> st \<Rightarrow> st" where
  "clear_key os p key s =
     (if snd key \<noteq> Ifindex (heap s p) then s
      else mirrored_del key (ndpMirrorAddr os (fst key) p False s))"

definition clearMirroredState :: "os \<Rightarrow> ptr \<Rightarrow> st \<Rightarrow> st" where
  "clearMirroredState os p s =
     (let s = fold (clear_own os p) (Addr6 (heap s p)) s
      in case range_mirrored os s of (keys, s) \<Rightarrow> fold (clear_key os p) keys s)"

section \<open>Frames\<close>

context quiet_obs
begin

lemma obs_setProxyNDP [simp]: "obs (snd (setProxyNDP os n e s)) = obs s"
  by (simp add: setProxyNDP_def Let_def split: sum.split)

lemma obs_setupRoute [simp]: "obs (snd (setupRoute os a l i g m add s)) = obs s"
  by (simp add: setupRoute_def Let_def case_prod_beta)

lemma obs_setupProxyNeigh [simp]: "obs (snd (setupProxyNeigh os a i add s)) = obs s"
  by (simp add: setupProxyNeigh_def Let_def case_prod_beta)

lemma obs_neigh_ops [simp]:
  "obs (probeNeighbor os a i s) = obs s" "obs (deleteFailedNeigh os a i s) = obs s"
  by (simp_all add: probeNeighbor_def deleteFailedNeigh_def Let_def case_prod_beta)

lemma obs_mirror_on [simp]: "obs (mirror_on os a i add c s) = obs s"
  by (simp add: mirror_on_def Let_def case_prod_beta)

lemma obs_ndpMirrorAddr [simp]: "obs (ndpMirrorAddr os a p add s) = obs s"
  by (simp add: ndpMirrorAddr_def Let_def case_prod_beta fold_frame [where obs = obs])

end

lemma mirrored_simps [simp]:
  "heap (mirrored_add k s) = heap s" "heap (mirrored_del k s) = heap s"
  "interfaces (mirrored_add k s) = interfaces s" "interfaces (mirrored_del k s) = interfaces s"
  "set (mirroredNeighs (mirrored_add k s)) = insert k (set (mirroredNeighs s))"
  "set (mirroredNeighs (mirrored_del k s)) = set (mirroredNeighs s) - {k}"
  "trace (mirrored_add k s) = trace s" "trace (mirrored_del k s) = trace s"
  "clk (mirrored_add k s) = clk s" "clk (mirrored_del k s) = clk s"
  by (auto simp: mirrored_add_def mirrored_del_def)

text \<open>Two observations the kernel tables need: neither the sysctl nor the log touches them.\<close>

lemma tables_setProxyNDP [simp]:
  "proxy_table (trace (snd (setProxyNDP os n e s))) = proxy_table (trace s)"
  "route_table (trace (snd (setProxyNDP os n e s))) = route_table (trace s)"
  by (simp_all add: setProxyNDP_def Let_def split: sum.split)

text \<open>Observations that also ignore the set of mirrored neighbours.\<close>

locale quiet_mirror = quiet_obs +
  assumes obs_mirrored: "obs (s\<lparr>mirroredNeighs := m\<rparr>) = obs s"
begin

lemma obs_mirrored_ops [simp]:
  "obs (mirrored_add k s) = obs s" "obs (mirrored_del k s) = obs s"
  by (simp_all add: mirrored_add_def mirrored_del_def obs_mirrored)

lemma obs_seed_one [simp]: "obs (seed_one os p n s) = obs s"
  by (simp add: seed_one_def Let_def split: option.split)

lemma obs_seedMirroredNeighbors [simp]: "obs (seedMirroredNeighbors os p s) = obs s"
  by (simp add: seedMirroredNeighbors_def fold_frame [where obs = obs] split: sum.split)

lemma obs_range_mirrored [simp]: "obs (snd (range_mirrored os s)) = obs s"
  by (simp add: range_mirrored_def)

lemma obs_clear [simp]: "obs (clear_own os p a s) = obs s" "obs (clear_key os p k s) = obs s"
  by (simp_all add: clear_own_def clear_key_def)

lemma obs_clearMirroredState [simp]: "obs (clearMirroredState os p s) = obs s"
  by (simp add: clearMirroredState_def Let_def case_prod_beta fold_frame [where obs = obs])

end

locale mirror_obs = world_obs + quiet_mirror

interpretation heap_mobs: mirror_obs heap by unfold_locales simp_all
interpretation nextPtr_mobs: mirror_obs nextPtr by unfold_locales simp_all
interpretation interfaces_mobs: mirror_obs interfaces by unfold_locales simp_all
interpretation reconcileScheduled_mobs: mirror_obs reconcileScheduled by unfold_locales simp_all
interpretation configFile_mobs: mirror_obs cfg_ConfigFile by unfold_locales simp_all
interpretation logLevelCmdline_mobs: mirror_obs cfg_LogLevelCmdline by unfold_locales simp_all
interpretation nextChan_mobs: mirror_obs nextChan by unfold_locales simp_all
interpretation closedChans_mobs: mirror_obs closedChans by unfold_locales simp_all
interpretation panicked_mobs: mirror_obs panicked by unfold_locales simp_all
interpretation timers_mobs: mirror_obs timers by unfold_locales simp_all
interpretation nextTimer_mobs: mirror_obs nextTimer by unfold_locales simp_all
interpretation readers_mobs: mirror_obs readers by unfold_locales simp_all

section \<open>Forgetting an interface\<close>

lemma clear_own_frame [simp]:
  "mirroredNeighs (fold (clear_own os p) as s) = mirroredNeighs s"
  "heap (fold (clear_own os p) as s) = heap s" "interfaces (fold (clear_own os p) as s) = interfaces s"
  by (rule fold_frame, simp add: clear_own_def)+

lemma set_clear_keys:
  "set (mirroredNeighs (fold (clear_key os p) ks s)) =
   set (mirroredNeighs s) - {k \<in> set ks. snd k = Ifindex (heap s p)}"
  by (induction ks arbitrary: s) (auto simp: clear_key_def)

lemma clear_mirrored_set:
  "set (mirroredNeighs (clearMirroredState os p s)) =
   {k \<in> set (mirroredNeighs s). snd k \<noteq> Ifindex (heap s p)}"
  by (auto simp: clearMirroredState_def Let_def case_prod_beta set_clear_keys range_mirrored_def)

section \<open>What mirroring does to the kernel tables\<close>

text \<open>
  The abstract contract of \<^verbatim>\<open>ndpMirrorAddr\<close>, on the tables alone: proxy entries for the address on
  every target interface, and a host route to the interface it lives behind.
\<close>

definition mirror_targets :: "st \<Rightarrow> int \<Rightarrow> int set" where
  "mirror_targets s own =
     {Ifindex (heap s c) | c. c \<in> snd ` set (interfaces s) \<and> Ifindex (heap s c) \<noteq> own
        \<and> Master (heap s c) \<and> NDP (heap s c) = ModeRelay}"

definition host_key :: "addr \<Rightarrow> bytes \<times> bytes \<times> int" where
  "host_key a = (asSlice a, cidrMask128 128, ourRouteMetric)"

definition mirror_spec ::
  "addr \<Rightarrow> int set \<Rightarrow> int \<Rightarrow> bool \<Rightarrow> bool \<Rightarrow> proxies \<times> routes \<Rightarrow> proxies \<times> routes" where
  "mirror_spec a targets own routed add = (\<lambda>(P, R).
     (if add then P \<union> {asSlice a} \<times> targets else P - {asSlice a} \<times> targets,
      if \<not> routed then R
      else if add then R(host_key a \<mapsto> own)
      else if R (host_key a) = Some own then R(host_key a := None) else R))"

definition tables :: "st \<Rightarrow> proxies \<times> routes" where
  "tables s = (proxy_table (trace s), route_table (trace s))"

lemma proxy_setupProxyNeigh [simp]:
  "proxy_table (trace (snd (setupProxyNeigh os a i add s))) =
   (if add then (if os_call os (clk s) (NeighSet \<lparr>ng_LinkIndex = i, ng_Family = AF_INET6, ng_State = 0,
                      ng_Flags = NTF_PROXY, ng_IP = asSlice a\<rparr>) = None
                 then insert (asSlice a, i) (proxy_table (trace s)) else proxy_table (trace s))
    else if fst (setupProxyNeigh os a i add s) = None then proxy_table (trace s) - {(asSlice a, i)}
    else proxy_table (trace s))"
  by (auto simp: setupProxyNeigh_def Let_def case_prod_beta)

lemma route_setupProxyNeigh [simp]:
  "route_table (trace (snd (setupProxyNeigh os a i add s))) = route_table (trace s)"
  by (simp add: setupProxyNeigh_def Let_def case_prod_beta)

lemma proxy_setupRoute [simp]:
  "proxy_table (trace (snd (setupRoute os a l i g m add s))) = proxy_table (trace s)"
  by (simp add: setupRoute_def Let_def case_prod_beta)

lemma route_setupRoute_accepts:
  "accepted os \<Longrightarrow> route_table (trace (snd (setupRoute os a 128 i None m add s))) =
   (let k = (asSlice a, cidrMask128 128, m) in
    if add then (route_table (trace s))(k \<mapsto> i)
    else if route_table (trace s) k = Some i then (route_table (trace s))(k := None)
    else route_table (trace s))"
  by (simp add: setupRoute_def Let_def case_prod_beta accepted_def route_key_def)

lemma route_setupRoute_frame:
  "k \<noteq> (asSlice a, cidrMask128 128, m) \<Longrightarrow>
   route_table (trace (snd (setupRoute os a 128 i None m add s))) k = route_table (trace s) k"
  by (auto simp: setupRoute_def Let_def case_prod_beta route_key_def)

lemma tables_mirror_on:
  "accepted os \<Longrightarrow> tables (mirror_on os a own add c s) =
   (let i = heap s c in
    if Ifindex i = own \<or> \<not> Master i \<or> NDP i \<noteq> ModeRelay then tables s
    else mirror_spec a {Ifindex i} own False add (tables s))"
  by (auto simp: tables_def mirror_on_def mirror_spec_def Let_def case_prod_beta accepted_def
      setupProxyNeigh_def)

lemma tables_fold_mirror_on:
  assumes "accepted os"
  shows "tables (fold (mirror_on os a own add) cs s) =
    mirror_spec a {Ifindex (heap s c) | c. c \<in> set cs \<and> Ifindex (heap s c) \<noteq> own
        \<and> Master (heap s c) \<and> NDP (heap s c) = ModeRelay} own False add (tables s)"
proof (induction cs arbitrary: s)
  case Nil
  then show ?case by (simp add: mirror_spec_def case_prod_beta)
next
  case (Cons c cs)
  show ?case
    unfolding fold_simps comp_apply Cons.IH tables_mirror_on [OF assms]
    by (auto simp: mirror_spec_def Let_def case_prod_beta)
qed

lemma ndpMirrorAddr_tables:
  assumes "accepted os"
  shows "tables (ndpMirrorAddr os a p add s) =
    mirror_spec a (mirror_targets s (Ifindex (heap s p))) (Ifindex (heap s p))
      (LearnRoutes (heap s p) \<and> \<not> isLinkLocalUnicast a) add (tables s)"
proof -
  let ?s = "snd (range_interfaces os s)"
  let ?f = "fold (mirror_on os a (Ifindex (heap s p)) add) (fst (range_interfaces os s)) ?s"
  have h: "heap ?f = heap s"
    by (simp add: fold_frame [where obs = heap])
  have t: "tables ?s = tables s" by (simp add: tables_def)
  have f: "tables ?f = mirror_spec a (mirror_targets s (Ifindex (heap s p))) (Ifindex (heap s p)) False add (tables s)"
    by (simp add: tables_fold_mirror_on [OF assms] mirror_targets_def t)
  show ?thesis
  proof (cases "LearnRoutes (heap s p) \<and> \<not> isLinkLocalUnicast a")
    case True
    then show ?thesis
      using f route_setupRoute_accepts [OF assms, of a "Ifindex (heap s p)" ourRouteMetric add ?f]
      by (auto simp: ndpMirrorAddr_def Let_def case_prod_beta h tables_def mirror_spec_def host_key_def)
  next
    case False
    then show ?thesis
      using f by (auto simp: ndpMirrorAddr_def Let_def case_prod_beta h)
  qed
qed

text \<open>
  C9. \<^verbatim>\<open>ndpMirrorAddr\<close> implements its contract on a kernel that accepts the calls: adding an address
  puts a proxy-NDP entry for it on exactly the other master relay interfaces, and (if the interface
  learns routes and the address is not link-local) makes the /128 route of metric 1024 point to the
  interface the address lives behind; removing it takes exactly these entries away again, and the
  route only if it points to that interface.
\<close>

theorem ndpMirrorAddr_refines:
  assumes "accepted os"
  shows "tables (ndpMirrorAddr os a p add s) =
    mirror_spec a (mirror_targets s (Ifindex (heap s p))) (Ifindex (heap s p))
      (LearnRoutes (heap s p) \<and> \<not> isLinkLocalUnicast a) add (tables s)"
  using assms by (rule ndpMirrorAddr_tables)

lemma demo_accepts [simp]: "accepted demo_os"
  by (simp add: accepted_def)

lemma demo_targets: "mirror_targets demo_st 3 = {2}"
  by (auto simp: mirror_targets_def demo_defs)

theorem ndpMirrorAddr_refines_witness:
  "tables (ndpMirrorAddr demo_os demo_host 1 True demo_st) =
   ({(asSlice demo_host, 2)}, [host_key demo_host \<mapsto> 3])"
proof -
  have i: "Ifindex (heap demo_st 1) = 3" "LearnRoutes (heap demo_st 1)"
    "\<not> isLinkLocalUnicast demo_host"
    by (simp_all add: demo_defs isLinkLocalUnicast_def v4InV6Prefix_def)
  show ?thesis
    using ndpMirrorAddr_refines [OF demo_accepts, of demo_host 1 True demo_st] i
    by (simp add: mirror_spec_def demo_targets tables_def proxy_table_def route_table_def)
qed

lemma proxy_mirror_on_bounds:
  "proxy_table (trace (mirror_on os a own add c s)) \<in>
     {proxy_table (trace s),
      if add then insert (asSlice a, Ifindex (heap s c)) (proxy_table (trace s))
      else proxy_table (trace s) - {(asSlice a, Ifindex (heap s c))}}"
  "route_table (trace (mirror_on os a own add c s)) = route_table (trace s)"
  "Ifindex (heap s c) = own \<or> \<not> Master (heap s c) \<or> NDP (heap s c) \<noteq> ModeRelay \<Longrightarrow>
   mirror_on os a own add c s = s"
  by (auto simp: mirror_on_def Let_def case_prod_beta)

lemma proxy_fold_mirror_on_bounds:
  "\<forall>c \<in> set cs. c \<in> snd ` set (interfaces s) \<Longrightarrow>
   (let P = proxy_table (trace s); E = {asSlice a} \<times> mirror_targets s own;
        P' = proxy_table (trace (fold (mirror_on os a own add) cs s))
    in if add then P \<subseteq> P' \<and> P' \<subseteq> P \<union> E else P - E \<subseteq> P' \<and> P' \<subseteq> P)"
proof (induction cs arbitrary: s)
  case (Cons c cs)
  let ?s = "mirror_on os a own add c s"
  have m: "mirror_targets ?s own = mirror_targets s own" by (simp add: mirror_targets_def)
  have IH: "let P = proxy_table (trace ?s); E = {asSlice a} \<times> mirror_targets s own;
        P' = proxy_table (trace (fold (mirror_on os a own add) cs ?s))
    in if add then P \<subseteq> P' \<and> P' \<subseteq> P \<union> E else P - E \<subseteq> P' \<and> P' \<subseteq> P"
    using Cons.IH [of ?s] Cons.prems by (simp add: m)
  have "(Ifindex (heap s c) \<in> mirror_targets s own) \<or> ?s = s"
    using Cons.prems proxy_mirror_on_bounds(3) [of s c own os a add]
    by (auto simp: mirror_targets_def)
  then show ?case
    using IH proxy_mirror_on_bounds(1) [of os a own add c s]
    by (auto simp: Let_def split: if_splits)
qed (simp add: Let_def)

lemma ndpMirrorAddr_bounds:
  fixes os :: os and a :: addr and p :: ptr and s :: st and add :: bool
  defines "P \<equiv> proxy_table (trace s)"
    and "P' \<equiv> proxy_table (trace (ndpMirrorAddr os a p add s))"
    and "E \<equiv> {asSlice a} \<times> mirror_targets s (Ifindex (heap s p))"
  shows "(if add then P \<subseteq> P' \<and> P' \<subseteq> P \<union> E else P - E \<subseteq> P' \<and> P' \<subseteq> P) \<and>
    (\<forall>k. k = host_key a \<or>
       route_table (trace (ndpMirrorAddr os a p add s)) k = route_table (trace s) k)"
proof -
  let ?cs = "fst (range_interfaces os s)" and ?s = "snd (range_interfaces os s)"
  let ?f = "fold (mirror_on os a (Ifindex (heap s p)) add) ?cs ?s"
  have m: "mirror_targets ?s i = mirror_targets s i" for i
    by (simp add: mirror_targets_def)
  have P: "P' = proxy_table (trace ?f)"
    by (simp add: P'_def ndpMirrorAddr_def Let_def case_prod_beta)
  have "\<forall>c \<in> set ?cs. c \<in> snd ` set (interfaces ?s)" by simp
  from proxy_fold_mirror_on_bounds [OF this, where a = a and own = "Ifindex (heap s p)" and add = add and os = os]
  have 1: "if add then P \<subseteq> P' \<and> P' \<subseteq> P \<union> E else P - E \<subseteq> P' \<and> P' \<subseteq> P"
    by (cases add) (simp_all add: Let_def m P E_def P_def)
  have "route_table (trace ?f) = route_table (trace s)"
    by (simp add: fold_frame [where obs = "\<lambda>s. route_table (trace s)"] proxy_mirror_on_bounds(2))
  then have 2: "k = host_key a \<or>
       route_table (trace (ndpMirrorAddr os a p add s)) k = route_table (trace s) k" for k
    by (cases "k = host_key a")
      (simp_all add: ndpMirrorAddr_def Let_def case_prod_beta host_key_def route_setupRoute_frame)
  from 1 2 show ?thesis by blast
qed

text \<open>Removing an address takes away at most its own host route, and only one to the interface it is behind.\<close>

lemma ndpMirrorAddr_unroutes:
  "route_table (trace (ndpMirrorAddr os a p False s)) k = route_table (trace s) k \<or>
   (k = host_key a \<and> route_table (trace s) k = Some (Ifindex (heap s p)) \<and>
    route_table (trace (ndpMirrorAddr os a p False s)) k = None)"
proof -
  let ?f = "fold (mirror_on os a (Ifindex (heap s p)) False) (fst (range_interfaces os s)) (snd (range_interfaces os s))"
  have f: "route_table (trace ?f) = route_table (trace s)" "heap ?f = heap s"
    by (simp_all add: fold_frame [where obs = "\<lambda>s. route_table (trace s)"] proxy_mirror_on_bounds(2)
        fold_frame [where obs = heap])
  then show ?thesis
    by (auto simp: ndpMirrorAddr_def Let_def case_prod_beta setupRoute_def route_key_def host_key_def)
qed

text \<open>
  C28. Whatever the kernel answers, \<^verbatim>\<open>ndpMirrorAddr\<close> stays inside its mandate: adding an address never
  removes a proxy entry and only ever adds entries of that address on the other master relay
  interfaces; removing it never adds one and only ever removes such entries; and the routing table
  changes at most at the /128 route of metric 1024 of that address.
\<close>

theorem ndpMirrorAddr_mandate:
  fixes os :: os and a :: addr and p :: ptr and s :: st and add :: bool
  defines "P \<equiv> proxy_table (trace s)"
    and "P' \<equiv> proxy_table (trace (ndpMirrorAddr os a p add s))"
    and "E \<equiv> {asSlice a} \<times> mirror_targets s (Ifindex (heap s p))"
  shows "(if add then P \<subseteq> P' \<and> P' \<subseteq> P \<union> E else P - E \<subseteq> P' \<and> P' \<subseteq> P) \<and>
    (\<forall>k. k = host_key a \<or>
       route_table (trace (ndpMirrorAddr os a p add s)) k = route_table (trace s) k)"
  unfolding P_def P'_def E_def by (rule ndpMirrorAddr_bounds)

section \<open>What forgetting an interface does to the tables\<close>

lemma proxies_remove:
  assumes "accepted os"
  shows "proxy_table (trace (ndpMirrorAddr os a p False s)) =
    proxy_table (trace s) - {asSlice a} \<times> mirror_targets s (Ifindex (heap s p))"
  using ndpMirrorAddr_tables [OF assms, of a p False s] by (simp add: tables_def mirror_spec_def)

lemma proxies_add:
  assumes "accepted os"
  shows "proxy_table (trace (ndpMirrorAddr os a p True s)) =
    proxy_table (trace s) \<union> {asSlice a} \<times> mirror_targets s (Ifindex (heap s p))"
  using ndpMirrorAddr_tables [OF assms, of a p True s] by (simp add: tables_def mirror_spec_def)

interpretation targets_mobs: mirror_obs "\<lambda>s. mirror_targets s i" for i
  by unfold_locales (simp_all add: mirror_targets_def)

lemma proxies_clear_own:
  assumes "accepted os"
  shows "proxy_table (trace (fold (clear_own os p) as s)) = proxy_table (trace s) -
    {asSlice (Addr a) | a. a \<in> set as \<and> own_mirrorable (heap s p) (Addr a)} \<times> mirror_targets s (Ifindex (heap s p))"
proof (induction as arbitrary: s)
  case (Cons a as)
  have "proxy_table (trace (clear_own os p a s)) = proxy_table (trace s) -
      (if own_mirrorable (heap s p) (Addr a) then {asSlice (Addr a)} else {}) \<times> mirror_targets s (Ifindex (heap s p))"
    by (simp add: clear_own_def proxies_remove [OF assms])
  then show ?case using Cons.IH [of "clear_own os p a s"] by auto
qed simp

lemma proxies_clear_keys:
  assumes "accepted os"
  shows "proxy_table (trace (fold (clear_key os p) ks s)) = proxy_table (trace s) -
    {asSlice (fst k) | k. k \<in> set ks \<and> snd k = Ifindex (heap s p)} \<times> mirror_targets s (Ifindex (heap s p))"
proof (induction ks arbitrary: s)
  case (Cons k ks)
  have "proxy_table (trace (clear_key os p k s)) = proxy_table (trace s) -
      (if snd k = Ifindex (heap s p) then {asSlice (fst k)} else {}) \<times> mirror_targets s (Ifindex (heap s p))"
    by (simp add: clear_key_def proxies_remove [OF assms])
  then show ?case using Cons.IH [of "clear_key os p k s"] by (cases k) auto
qed simp

text \<open>
  C29. \<^verbatim>\<open>clearMirroredState\<close> forgets exactly the mirrored neighbours of the interface, whatever the kernel
  answers: afterwards no key with its index is left, and the keys of every other index are still
  there. On a kernel that accepts the calls, the proxy-NDP entries that go away are exactly those of
  these neighbours and of the interface's own mirrored addresses on the other master relay interfaces.
\<close>

theorem clearMirroredState_exact:
  "set (mirroredNeighs (clearMirroredState os p s)) =
      {k \<in> set (mirroredNeighs s). snd k \<noteq> Ifindex (heap s p)} \<and>
    (accepted os \<longrightarrow> proxy_table (trace (clearMirroredState os p s)) = proxy_table (trace s) -
      ({asSlice (Addr a) | a. a \<in> set (Addr6 (heap s p)) \<and> own_mirrorable (heap s p) (Addr a)} \<union>
       {asSlice (fst k) | k. k \<in> set (mirroredNeighs s) \<and> snd k = Ifindex (heap s p)})
      \<times> mirror_targets s (Ifindex (heap s p)))"
proof -
  let ?o = "fold (clear_own os p) (Addr6 (heap s p)) s"
  have m: "mirror_targets ?o i = mirror_targets s i" for i
    by (simp add: fold_frame [where obs = "\<lambda>s. mirror_targets s i"])
  have k: "set (fst (range_mirrored os ?o)) = set (mirroredNeighs s)" "trace (snd (range_mirrored os ?o)) = trace ?o"
    by (simp_all add: range_mirrored_def)
  have "proxy_table (trace (clearMirroredState os p s)) = proxy_table (trace s) -
      {asSlice (Addr a) | a. a \<in> set (Addr6 (heap s p)) \<and> own_mirrorable (heap s p) (Addr a)}
        \<times> mirror_targets s (Ifindex (heap s p)) -
      {asSlice (fst k) | k. k \<in> set (mirroredNeighs s) \<and> snd k = Ifindex (heap s p)}
        \<times> mirror_targets s (Ifindex (heap s p))" if "accepted os"
    by (simp add: clearMirroredState_def Let_def case_prod_beta proxies_clear_keys [OF that] m k
        proxies_clear_own [OF that])
  then show ?thesis by (auto simp: clear_mirrored_set)
qed

text \<open>C29 on a state with one mirrored neighbour of the downstream interface: the key and its entry go.\<close>

theorem clearMirroredState_exact_witness:
  "let s = ndpMirrorAddr demo_os demo_host 1 True (mirrored_add (demo_host, 3) demo_st);
       s' = clearMirroredState demo_os 1 s
   in mirroredNeighs s = [(demo_host, 3)] \<and> proxy_table (trace s) = {(asSlice demo_host, 2)} \<and>
      mirroredNeighs s' = [] \<and> proxy_table (trace s') = {}"
proof -
  let ?s = "ndpMirrorAddr demo_os demo_host 1 True (mirrored_add (demo_host, 3) demo_st)"
  have i: "Ifindex demo_lan = 3" by (simp add: demo_lan_def)
  have m: "mirror_targets (mirrored_add (demo_host, 3) demo_st) 3 = {2}" "mirror_targets ?s 3 = {2}"
    using demo_targets by (simp_all add: mirror_targets_def)
  have n: "mirroredNeighs ?s = [(demo_host, 3)]" by (simp add: mirrored_add_def)
  have p: "proxy_table (trace ?s) = {(asSlice demo_host, 2)}"
    using m(1) by (simp add: proxies_add i) (simp add: proxy_table_def)
  note C = clearMirroredState_exact [where os = demo_os and p = 1 and s = ?s]
  from C have "set (mirroredNeighs (clearMirroredState demo_os 1 ?s)) = {}" using n i by auto
  then show ?thesis using C n p m(2) i by (simp add: Let_def)
qed

end
