(* ===== verification/Ndp.thy ===== *)
theory Ndp
  imports Mirror
begin

text \<open>
  \<^verbatim>\<open>ndp.go\<close>: the packet socket that captures Neighbor Solicitations behind a classic BPF filter, the
  ping socket, and the relaying of a solicitation by an echo request pinned to each other interface
  with a temporary host route. The BPF programs are the program's data; the interpreter below is the
  documented meaning of the three instruction codes they use.
\<close>

section \<open>Filters\<close>

abbreviation ndNeighborSolicit :: u32 where "ndNeighborSolicit \<equiv> 135"
abbreviation icmp6EchoRequest :: byte where "icmp6EchoRequest \<equiv> 128"

definition bpfDropAll :: "sock_filter list" where
  "bpfDropAll = [\<lparr>sf_Code = 0x06, sf_Jt = 0, sf_Jf = 0, sf_K = 0\<rparr>]"

definition bpfNSFilter :: "sock_filter list" where
  "bpfNSFilter =
     [\<lparr>sf_Code = 0x30, sf_Jt = 0, sf_Jf = 0, sf_K = 6\<rparr>,
      \<lparr>sf_Code = 0x15, sf_Jt = 0, sf_Jf = 3, sf_K = 58\<rparr>,
      \<lparr>sf_Code = 0x30, sf_Jt = 0, sf_Jf = 0, sf_K = 40\<rparr>,
      \<lparr>sf_Code = 0x15, sf_Jt = 0, sf_Jf = 1, sf_K = ndNeighborSolicit\<rparr>,
      \<lparr>sf_Code = 0x06, sf_Jt = 0, sf_Jf = 0, sf_K = 0xffffffff\<rparr>,
      \<lparr>sf_Code = 0x06, sf_Jt = 0, sf_Jf = 0, sf_K = 0\<rparr>]"

text \<open>
  \<^verbatim>\<open>BPF_LD|BPF_B|BPF_ABS\<close> loads a byte and drops the packet if it is too short, \<^verbatim>\<open>BPF_JMP|BPF_JEQ|BPF_K\<close>
  jumps forward, \<^verbatim>\<open>BPF_RET|BPF_K\<close> returns how many bytes to accept. \<open>None\<close> is a program the kernel
  refuses (another code, or running off the end).
\<close>

function bpf_run :: "sock_filter list \<Rightarrow> bytes \<Rightarrow> u32 \<Rightarrow> nat \<Rightarrow> u32 option" where
  "bpf_run prog pkt A pc =
     (if pc < length prog
      then let i = prog ! pc
           in if sf_Code i = 0x30
              then (case at pkt (unat (sf_K i)) of
                      None \<Rightarrow> Some 0 | Some b \<Rightarrow> bpf_run prog pkt (ucast b) (pc + 1))
              else if sf_Code i = 0x15
              then bpf_run prog pkt A (pc + 1 + (if A = sf_K i then sf_Jt i else sf_Jf i))
              else if sf_Code i = 0x06 then Some (sf_K i)
              else None
      else None)"
  by pat_completeness auto
termination
  by (relation "measure (\<lambda>(prog, pkt, A, pc). length prog - pc)") auto

declare bpf_run.simps [simp del]

definition bpf_accepts :: "sock_filter list \<Rightarrow> bytes \<Rightarrow> bool" where
  "bpf_accepts prog pkt = (\<exists>n. bpf_run prog pkt 0 0 = Some n \<and> n \<noteq> 0)"

definition swap16 :: "u16 \<Rightarrow> u16" where
  "swap16 v = drop_bit 8 v OR push_bit 8 v"

section \<open>Socket\<close>

definition attachFilter :: "int \<Rightarrow> sock_filter list \<Rightarrow> call" where
  "attachFilter fd prog = AttachFilter fd prog"

text \<open>
  The drain loop reads until the first error. The socket's queue is finite and nothing is added to it
  behind a drop-all filter; its length is what the outside world says it is, and the receive after the
  last frame does not wait and fails.
\<close>

fun drain_n :: "os \<Rightarrow> int \<Rightarrow> nat \<Rightarrow> st \<Rightarrow> st" where
  "drain_n os fd 0 s = snd (sys os (RecvDiscard fd) s)"
| "drain_n os fd (Suc n) s =
     (case sys os (RecvDiscard fd) s of (e, s) \<Rightarrow> if e \<noteq> None then s else drain_n os fd n s)"

definition drainSocket :: "os \<Rightarrow> int \<Rightarrow> st \<Rightarrow> st" where
  "drainSocket os fd s = drain_n os fd (os_backlog os (clk s) fd) (tick s)"

definition ndp_teardown :: "os \<Rightarrow> ptr \<Rightarrow> st \<Rightarrow> st" where
  "ndp_teardown os p s =
     (case ndp (heap s p) of
        None \<Rightarrow> s
      | Some n \<Rightarrow> upd p (\<lambda>i. i\<lparr>ndp := None\<rparr>)
          (closeFD os (ns_pingFd n) (closeFD os (ns_fd n) (close_chan (ns_done n) s))))"

definition ping_options :: "int \<Rightarrow> Interface \<Rightarrow> (call \<times> string) list" where
  "ping_options fd i =
     [(bindToDevice fd (Ifname i), ''SO_BINDTODEVICE(%s): %v''),
      (setsockoptInt fd IPPROTO_RAW IPV6_CHECKSUM 2, ''IPV6_CHECKSUM: %v''),
      (setsockoptInt fd IPPROTO_IPV6 IPV6_MULTICAST_HOPS 255, ''IPV6_MULTICAST_HOPS: %v''),
      (setsockoptInt fd IPPROTO_IPV6 IPV6_UNICAST_HOPS 255, ''IPV6_UNICAST_HOPS: %v''),
      (ICMPv6Filter fd icmp6FilterBlockAll, ''ICMP6_FILTER: %v'')]"

definition capture_options :: "int \<Rightarrow> Interface \<Rightarrow> (call \<times> string) list" where
  "capture_options fd i =
     [(attachFilter fd bpfNSFilter, ''SO_ATTACH_FILTER(ns-filter): %v''),
      (BindLinklayer fd (swap16 ETH_P_ALL) (Ifindex i), ''bind(AF_PACKET): %v''),
      (PacketAllmulti fd (Ifindex i), ''PACKET_ADD_MEMBERSHIP: %v'')]"

text \<open>From the open capture socket on; the deferred calls close the capture socket first.\<close>

definition ndp_capture :: "os \<Rightarrow> ptr \<Rightarrow> int \<Rightarrow> int \<Rightarrow> st \<Rightarrow> errno option \<times> st" where
  "ndp_capture os p pingFd captureFd s =
     (let fail = (\<lambda>e s. (e, closeFD os pingFd (closeFD os captureFd s)))
      in case setProxyNDP os (Ifname (heap s p)) True s of (e, s) \<Rightarrow>
         if e \<noteq> None then fail e s
         else case seq_calls os [(attachFilter captureFd bpfDropAll, ''SO_ATTACH_FILTER(drop-all): %v'')] s of
           (e, s) \<Rightarrow>
             if e \<noteq> None then fail e s
             else case seq_calls os (capture_options captureFd (heap s p)) (drainSocket os captureFd s) of
               (e, s) \<Rightarrow>
                 if e \<noteq> None then fail e s
                 else case make_chan s of (ch, s) \<Rightarrow>
                   (let ns = \<lparr>ns_fd = captureFd, ns_pingFd = pingFd, ns_iface = p, ns_done = ch\<rparr>;
                        s = go (NdpReader ns) (upd p (\<lambda>i. i\<lparr>ndp := Some ns\<rparr>) s)
                    in (None, seedMirroredNeighbors os p s)))"

definition ndpSetup :: "os \<Rightarrow> ptr \<Rightarrow> bool \<Rightarrow> st \<Rightarrow> errno option \<times> st" where
  "ndpSetup os p enable s =
     (let enable = (enable \<and> NDP (heap s p) \<noteq> ModeDisabled);
          s = ndp_teardown os p s
      in if \<not> enable then setProxyNDP os (Ifname (heap s p)) False s
         else case sys_socket os RawICMPv6Socket s of
           (Inl e, s) \<Rightarrow> (Some e, Errorf ''socket(AF_INET6) for ndp ping on %s: %v'' s)
         | (Inr pingFd, s) \<Rightarrow>
             (case seq_calls os (ping_options pingFd (heap s p)) s of (e, s) \<Rightarrow>
                if e \<noteq> None then (e, closeFD os pingFd s)
                else case sys_socket os (PacketSocket (swap16 ETH_P_ALL)) s of
                  (Inl e, s) \<Rightarrow> (Some e, closeFD os pingFd
                      (Errorf ''socket(AF_PACKET) for ndp capture on %s: %v'' s))
                | (Inr captureFd, s) \<Rightarrow> ndp_capture os p pingFd captureFd s))"

text \<open>One round of \<^verbatim>\<open>ndpReadLoop\<close>; the sender is the link-layer address, if it is one.\<close>

definition ndpReadLoop_round ::
  "bool \<Rightarrow> errno + bytes \<times> bytes option \<Rightarrow> bool \<Rightarrow> (bytes \<times> bytes) readRound" where
  "ndpReadLoop_round done1 recv done2 =
     (if done1 then ReadExit
      else case recv of
        Inl err \<Rightarrow> if err = EINTR then ReadNext else if done2 then ReadExit else ReadPause
      | Inr (data, sender) \<Rightarrow>
          if data = [] then ReadNext
          else case sender of None \<Rightarrow> ReadNext | Some sll \<Rightarrow> ReadPost (take 6 sll, data))"

section \<open>Relaying a solicitation\<close>

definition relayPing :: "os \<Rightarrow> addr \<Rightarrow> ptr \<Rightarrow> st \<Rightarrow> st" where
  "relayPing os target p s =
     (case ndp (heap s p) of
        None \<Rightarrow> s
      | Some n \<Rightarrow>
          if ns_pingFd n < 0 then s
          else (let s = snd (setupRoute os target 128 (Ifindex (heap s p)) None 128 True s);
                    s = sendICMP6WithLLSrc os (ns_pingFd n) p target (Ifindex (heap s p))
                          (icmp6EchoRequest # replicate 7 0) s
                in snd (setupRoute os target 128 (Ifindex (heap s p)) None 128 False s)))"

definition ping_on :: "os \<Rightarrow> addr \<Rightarrow> ptr \<Rightarrow> ptr \<Rightarrow> st \<Rightarrow> st" where
  "ping_on os target p c s =
     (if c \<noteq> p \<and> NDP (heap s c) = ModeRelay then relayPing os target c s else s)"

definition handleSolicit :: "os \<Rightarrow> ndpSock \<Rightarrow> bytes \<Rightarrow> bytes \<Rightarrow> st \<Rightarrow> st option" where
  "handleSolicit os ns srcMAC data s =
     (let p = ns_iface ns
      in if ndp (heap s p) \<noteq> Some ns \<or> NDP (heap s p) \<noteq> ModeRelay then Some s
         else if length data < 40 + 24 then Some s
         else do {
           hopLimit \<leftarrow> at data 7;
           srcb \<leftarrow> slice data 8 24;
           case addrFromSlice srcb of
             None \<Rightarrow> Some s
           | Some src \<Rightarrow> do {
               nsCode \<leftarrow> at data 41;
               tb \<leftarrow> slice data 48 64;
               case addrFromSlice tb of
                 None \<Rightarrow> Some s
               | Some t \<Rightarrow>
                   (let target = unmap t
                    in if hopLimit \<noteq> 255 \<or> nsCode \<noteq> 0 then Some s
                       else if isLinkLocalUnicast target \<or> isLoopback target \<or> isMulticast target then Some s
                       else case getMAC os p s of (mac, s) \<Rightarrow>
                         if (case mac of Inl _ \<Rightarrow> False | Inr hw \<Rightarrow> hwAddrBytes6 hw = srcMAC)
                            \<and> \<not> Master (heap s p)
                         then Some s
                         else case range_interfaces os s of (cs, s) \<Rightarrow>
                           Some (fold (ping_on os target p) cs s))
             }
         })"

section \<open>The capture filter\<close>

text \<open>
  C25. The capture socket's filter is a valid program that accepts exactly the frames whose next-header
  byte is ICMPv6 and whose ICMPv6 type is Neighbor Solicitation; a frame too short to hold the type is
  dropped. The filter installed before it accepts nothing.
\<close>

theorem bpfNSFilter_exact:
  "bpf_run bpfNSFilter pkt 0 0 =
     Some (if 40 < length pkt \<and> pkt ! 6 = 58 \<and> pkt ! 40 = 135 then 0xffffffff else 0) \<and>
   bpf_run bpfDropAll pkt 0 0 = Some 0"
proof -
  have c: "(ucast b = (58 :: u32)) = (b = 58)" "(ucast b = (135 :: u32)) = (b = 135)" for b :: byte
    by (simp_all add: word_uint_eq_iff uint_up_ucast is_up)
  have u: "unat (6 :: u32) = 6" "unat (40 :: u32) = 40" by simp_all
  let ?r = "bpf_run bpfNSFilter pkt"
  have F: "length bpfNSFilter = 6"
    "bpfNSFilter ! 0 = \<lparr>sf_Code = 0x30, sf_Jt = 0, sf_Jf = 0, sf_K = 6\<rparr>"
    "bpfNSFilter ! 1 = \<lparr>sf_Code = 0x15, sf_Jt = 0, sf_Jf = 3, sf_K = 58\<rparr>"
    "bpfNSFilter ! 2 = \<lparr>sf_Code = 0x30, sf_Jt = 0, sf_Jf = 0, sf_K = 40\<rparr>"
    "bpfNSFilter ! 3 = \<lparr>sf_Code = 0x15, sf_Jt = 0, sf_Jf = 1, sf_K = ndNeighborSolicit\<rparr>"
    "bpfNSFilter ! 4 = \<lparr>sf_Code = 0x06, sf_Jt = 0, sf_Jf = 0, sf_K = 0xffffffff\<rparr>"
    "bpfNSFilter ! 5 = \<lparr>sf_Code = 0x06, sf_Jt = 0, sf_Jf = 0, sf_K = 0\<rparr>"
    by (simp_all add: bpfNSFilter_def)
  have 5: "?r A 5 = Some 0" and 4: "?r A 4 = Some 0xffffffff" for A
    by (subst bpf_run.simps, simp add: F Let_def)+
  have 3: "?r A 3 = (if A = 135 then ?r A 4 else ?r A 5)" for A
    by (subst bpf_run.simps) (simp add: F Let_def)
  have 2: "?r A 2 = (if 40 < length pkt then ?r (ucast (pkt ! 40)) 3 else Some 0)" for A
    by (subst bpf_run.simps) (simp add: F Let_def at_def u)
  have 1: "?r A 1 = (if A = 58 then ?r A 2 else ?r A 5)" for A
    by (subst bpf_run.simps) (simp add: F F(3) [unfolded One_nat_def] Let_def flip: numeral_2_eq_2)
  have 0: "?r A 0 = (if 6 < length pkt then ?r (ucast (pkt ! 6)) 1 else Some 0)" for A
    by (subst bpf_run.simps) (simp add: F Let_def at_def u)
  have "bpf_run bpfDropAll pkt 0 0 = Some 0"
    by (subst bpf_run.simps) (simp add: bpfDropAll_def)
  then show ?thesis unfolding 0 1 2 3 4 5 c by auto
qed

text \<open>
  \<^verbatim>\<open>swap16\<close> exchanges the two bytes of its argument and is its own inverse.
\<close>

theorem swap16_correct:
  "be16_put (swap16 v) = rev (be16_put v) \<and> swap16 (swap16 v) = v"
proof
  have "ucast (drop_bit 8 (swap16 v)) = (ucast v :: byte)" "ucast (swap16 v) = (ucast (drop_bit 8 v) :: byte)"
    by (rule bit_word_eqI, auto simp: swap16_def bit_simps)+
  then show "be16_put (swap16 v) = rev (be16_put v)" by (simp add: be16_put_def)
  show "swap16 (swap16 v) = v"
  proof (rule bit_word_eqI)
    fix n :: nat assume "n < LENGTH(16)"
    then show "bit (swap16 (swap16 v)) n = bit v n"
      by (cases "n < 8") (auto simp: swap16_def bit_simps)
  qed
qed

section \<open>Frames\<close>

context quiet_cache
begin

lemma obs_sendICMP6WithLLSrc [simp]: "obs (sendICMP6WithLLSrc os fd p d i b s) = obs s"
proof -
  obtain o' t where g: "getLinkLocalAddr p s = (o', t)" by (cases "getLinkLocalAddr p s")
  then have "obs t = obs s" using obs_getLinkLocalAddr [of p s] by simp
  with g show ?thesis by (auto simp: sendICMP6WithLLSrc_def split: option.split)
qed

lemma obs_relayPing [simp]: "obs (relayPing os t p s) = obs s"
  by (simp add: relayPing_def Let_def split: option.split)

lemma obs_ping_on [simp]: "obs (ping_on os t p c s) = obs s"
  by (simp add: ping_on_def)

end

lemma core_relayPing: "core (heap (ping_on os t p c s) q) = core (heap s q)"
  by simp

lemmas ping_fields = coreD [OF core_relayPing]

section \<open>Pings\<close>

text \<open>The datagrams of a trace: descriptor, payload and destination address.\<close>

fun datagram :: "call \<Rightarrow> (int \<times> bytes \<times> bytes) list" where
  "datagram (Sendmsg fd b oob sa) = [(fd, b, sa_Addr sa)]"
| "datagram _ = []"

definition datagrams :: "st \<Rightarrow> (int \<times> bytes \<times> bytes) list" where
  "datagrams s = concat (map datagram (calls (trace s)))"

lemma calls_setupRoute:
  "\<exists>r. calls (trace (snd (setupRoute os a l i g m add s))) =
    calls (trace s) @ [if add then RouteReplace r else RouteDel r]"
  by (auto simp: setupRoute_def Let_def case_prod_beta)

lemma datagrams_setupRoute [simp]: "datagrams (snd (setupRoute os a l i g m add s)) = datagrams s"
  using calls_setupRoute [of os a l i g m add s] by (auto simp: datagrams_def)

lemma datagrams_sendICMP6WithLLSrc [simp]:
  "datagrams (sendICMP6WithLLSrc os fd p d i b s) = datagrams s @ [(fd, b, as16 d)]"
proof -
  obtain o' t where g: "getLinkLocalAddr p s = (o', t)" by (cases "getLinkLocalAddr p s")
  then have "trace t = trace s" using trace_getLinkLocalAddr [of p s] by simp
  with g show ?thesis
    by (auto simp: sendICMP6WithLLSrc_def datagrams_def sockaddrIn6_def split: option.split)
qed

definition pinged :: "Interface \<Rightarrow> bool" where
  "pinged i = (NDP i = ModeRelay \<and> (\<exists>n. ndp i = Some n \<and> 0 \<le> ns_pingFd n))"

definition echo_to :: "addr \<Rightarrow> Interface \<Rightarrow> int \<times> bytes \<times> bytes" where
  "echo_to t i = (ns_pingFd (the (ndp i)), icmp6EchoRequest # replicate 7 0, as16 t)"

lemma datagrams_ping_on:
  "datagrams (ping_on os t p c s) =
   datagrams s @ (if c \<noteq> p \<and> pinged (heap s c) then [echo_to t (heap s c)] else [])"
  by (auto simp: ping_on_def relayPing_def pinged_def echo_to_def Let_def split: option.split)

lemma datagrams_ping_all:
  "datagrams (fold (ping_on os t p) cs s) =
   datagrams s @ map (\<lambda>c. echo_to t (heap s c)) (filter (\<lambda>c. c \<noteq> p \<and> pinged (heap s c)) cs)"
proof (induction cs arbitrary: s)
  case (Cons c cs)
  have "pinged (heap (ping_on os t p c s) q) = pinged (heap s q)"
    "echo_to t (heap (ping_on os t p c s) q) = echo_to t (heap s q)" for q
    by (simp_all add: pinged_def echo_to_def ping_fields)
  then show ?case using Cons.IH [of "ping_on os t p c s"] by (simp add: datagrams_ping_on)
qed simp

text \<open>The target a captured frame solicits, if it is a valid solicitation the relay cares for.\<close>

definition ns_target :: "bytes \<Rightarrow> addr option" where
  "ns_target data =
     (let t = unmap (V6 (take 16 (drop 48 data)))
      in if length data < 64 \<or> data ! 7 \<noteq> 255 \<or> data ! 41 \<noteq> 0
            \<or> isLinkLocalUnicast t \<or> isLoopback t \<or> isMulticast t
         then None else Some t)"

definition own_probe :: "os \<Rightarrow> bytes \<Rightarrow> ptr \<Rightarrow> st \<Rightarrow> bool" where
  "own_probe os srcMAC p s =
     (\<not> Master (heap s p) \<and> (\<exists>hw. fst (getMAC os p s) = Inr hw \<and> hwAddrBytes6 hw = srcMAC))"

lemma handleSolicit_Some:
  "handleSolicit os ns srcMAC data s =
   Some (let p = ns_iface ns in
     if ndp (heap s p) \<noteq> Some ns \<or> NDP (heap s p) \<noteq> ModeRelay then s
     else case ns_target data of
         None \<Rightarrow> s
       | Some t \<Rightarrow>
           (let s1 = snd (getMAC os p s)
            in if own_probe os srcMAC p s then s1
               else fold (ping_on os t p) (fst (range_interfaces os s1)) (snd (range_interfaces os s1))))"
proof (cases "length data < 64")
  case True
  then show ?thesis by (simp add: handleSolicit_def Let_def ns_target_def)
next
  case False
  then have at: "at data 7 = Some (data ! 7)" "at data 41 = Some (data ! 41)"
    "Prelude.slice data 8 24 = Some (take 16 (drop 8 data))"
    "Prelude.slice data 48 64 = Some (take 16 (drop 48 data))"
    "addrFromSlice (take 16 (drop 8 data)) = Some (V6 (take 16 (drop 8 data)))"
    "addrFromSlice (take 16 (drop 48 data)) = Some (V6 (take 16 (drop 48 data)))"
    by (simp_all add: addrFromSlice_def)
  show ?thesis
    using False
    by (auto simp: handleSolicit_def Let_def at ns_target_def own_probe_def case_prod_beta
        simp del: unmap.simps split: sum.split)
qed

text \<open>
  C8. \<^verbatim>\<open>handleSolicit\<close> never panics. A solicitation captured on an open socket of a relaying interface,
  with hop limit 255, code 0 and a target that is not link-local, loopback or multicast, is turned into
  exactly one echo request to the target on every other relaying interface with an open ping socket,
  whatever the order of the interfaces. For every other frame, a frame of an old socket, and the
  daemon's own probe looping back on a downstream interface, it makes no call that changes anything
  outside. Of what the daemon owns only the link-local caches of the interfaces change.
\<close>

theorem handleSolicit_correct:
  fixes os :: os and ns :: ndpSock and s :: st
  defines "p \<equiv> ns_iface ns"
  shows "\<exists>s' cs. handleSolicit os ns srcMAC data s = Some s' \<and>
     mset cs = mset (map snd (interfaces s)) \<and> own_core s' = own_core s \<and>
     (case (if ndp (heap s p) = Some ns \<and> NDP (heap s p) = ModeRelay \<and> \<not> own_probe os srcMAC p s
            then ns_target data else None) of
        None \<Rightarrow> trace s' = trace s
      | Some t \<Rightarrow> datagrams s' = datagrams s @
          map (\<lambda>c. echo_to t (heap s c)) (filter (\<lambda>c. c \<noteq> p \<and> pinged (heap s c)) cs))"
proof -
  let ?s1 = "snd (getMAC os p s)"
  let ?cs = "fst (range_interfaces os ?s1)" and ?s2 = "snd (range_interfaces os ?s1)"
  have d: "datagrams ?s2 = datagrams s" by (simp add: datagrams_def)
  have core: "own_core (fold (ping_on os t p) ?cs ?s2) = own_core s" for t
    by (simp add: fold_frame [where obs = own_core])
  obtain s' where s': "handleSolicit os ns srcMAC data s = Some s'" by (simp add: handleSolicit_Some)
  note eq = s' [unfolded handleSolicit_Some p_def [symmetric] Let_def option.inject, symmetric]
  have "own_core s' = own_core s"
    unfolding eq by (auto simp: core split: option.split)
  moreover have "case (if ndp (heap s p) = Some ns \<and> NDP (heap s p) = ModeRelay \<and> \<not> own_probe os srcMAC p s
            then ns_target data else None) of
        None \<Rightarrow> trace s' = trace s
      | Some t \<Rightarrow> datagrams s' = datagrams s @
          map (\<lambda>c. echo_to t (heap s c)) (filter (\<lambda>c. c \<noteq> p \<and> pinged (heap s c)) ?cs)"
    unfolding eq by (auto simp: d datagrams_ping_all split: option.split)
  moreover have "mset ?cs = mset (map snd (interfaces s))" by simp
  ultimately show ?thesis using s' by blast
qed

section \<open>Temporary routes\<close>

abbreviation ping_key :: "addr \<Rightarrow> bytes \<times> bytes \<times> int" where
  "ping_key t \<equiv> (asSlice t, cidrMask128 128, 128)"

lemma route_sendICMP6WithLLSrc [simp]:
  "route_table (trace (sendICMP6WithLLSrc os fd p d i b s)) = route_table (trace s)"
proof -
  obtain o' t where g: "getLinkLocalAddr p s = (o', t)" by (cases "getLinkLocalAddr p s")
  then have "trace t = trace s" using trace_getLinkLocalAddr [of p s] by simp
  with g show ?thesis by (auto simp: sendICMP6WithLLSrc_def split: option.split)
qed

lemma route_ping_on:
  assumes "accepted os"
  shows "route_table (trace (ping_on os t p c s)) \<in>
    {route_table (trace s), (route_table (trace s))(ping_key t := None)}"
proof -
  have "route_table (trace (relayPing os t c s)) \<in>
    {route_table (trace s), (route_table (trace s))(ping_key t := None)}"
  proof (cases "ndp (heap s c)")
    case (Some n)
    let ?a = "snd (setupRoute os t 128 (Ifindex (heap s c)) None 128 True s)"
    let ?b = "sendICMP6WithLLSrc os (ns_pingFd n) c t (Ifindex (heap ?a c)) (icmp6EchoRequest # replicate 7 0) ?a"
    have "core (heap ?b c) = core (heap s c)" by simp
    from coreD(3) [OF this] show ?thesis
      by (auto simp: relayPing_def Some Let_def route_setupRoute_accepts [OF assms])
  qed (simp add: relayPing_def)
  then show ?thesis by (simp add: ping_on_def)
qed

lemma route_ping_all:
  "accepted os \<Longrightarrow> route_table (trace (fold (ping_on os t p) cs s)) \<in>
    {route_table (trace s), (route_table (trace s))(ping_key t := None)}"
proof (induction cs arbitrary: s)
  case (Cons c cs)
  show ?case using Cons.IH [OF Cons.prems, of "ping_on os t p c s"] route_ping_on [OF Cons.prems, of t p c s] by auto
qed simp

text \<open>
  C24. No temporary route survives: on a kernel that accepts the calls, relaying a solicitation leaves
  every route as it was, except that a /128 route of metric 128 to the target is gone afterwards.
\<close>

theorem handleSolicit_routes:
  assumes "accepted os" "handleSolicit os ns srcMAC data s = Some s'"
  shows "route_table (trace s') = route_table (trace s) \<or>
    (\<exists>t. ns_target data = Some t \<and> route_table (trace s') = (route_table (trace s))(ping_key t := None))"
proof -
  have t: "trace (snd (range_interfaces os (snd (getMAC os p s)))) = trace s" for p by simp
  show ?thesis
    using assms(2) route_ping_all [OF assms(1), where s = "snd (range_interfaces os (snd (getMAC os (ns_iface ns) s)))"]
    unfolding handleSolicit_Some t
    by (auto simp: Let_def split: if_splits option.splits)
qed

definition demo_ns :: bytes where
  "demo_ns = [0x60, 0, 0, 0, 0, 24, 58, 255] @ as16 demo_lan_addr @ as16 demo_host
     @ [135, 0, 0, 0, 0, 0, 0, 0] @ as16 demo_host"

theorem handleSolicit_routes_witness:
  "\<exists>s'. handleSolicit demo_os \<lparr>ns_fd = 5, ns_pingFd = 6, ns_iface = 0, ns_done = 2\<rparr> [] demo_ns demo_st = Some s'
     \<and> route_table (trace s') = Map.empty"
proof -
  obtain s' where s': "handleSolicit demo_os \<lparr>ns_fd = 5, ns_pingFd = 6, ns_iface = 0, ns_done = 2\<rparr> []
      demo_ns demo_st = Some s'"
    by (simp add: handleSolicit_Some)
  then show ?thesis
    using handleSolicit_routes [OF demo_accepts s'] by (auto simp: route_table_def fun_eq_iff)
qed

end
