(* ===== verification/Dhcpv6.thy ===== *)
theory Dhcpv6
  imports Rawsock
begin

text \<open>
  \<^verbatim>\<open>dhcpv6.go\<close>: the relay agent. Client messages from a downstream interface are wrapped into a
  Relay-Forward envelope and sent to every upstream interface; a Relay-Reply from upstream is
  unwrapped and its payload sent on the interface its Interface-ID option names. A handler returns
  \<open>None\<close> if a slice access would be out of range, which is proved never to happen.
\<close>

section \<open>Constants and socket\<close>

abbreviation dhcpv6ClientPort :: int where "dhcpv6ClientPort \<equiv> 546"
abbreviation dhcpv6ServerPort :: int where "dhcpv6ServerPort \<equiv> 547"
abbreviation dhcpv6HopLimit :: byte where "dhcpv6HopLimit \<equiv> 32"
abbreviation dhcpMsgSolicit :: byte where "dhcpMsgSolicit \<equiv> 1"
abbreviation dhcpMsgAdvertise :: byte where "dhcpMsgAdvertise \<equiv> 2"
abbreviation dhcpMsgReply :: byte where "dhcpMsgReply \<equiv> 7"
abbreviation dhcpMsgReconfigure :: byte where "dhcpMsgReconfigure \<equiv> 10"
abbreviation dhcpMsgRelayForw :: byte where "dhcpMsgRelayForw \<equiv> 12"
abbreviation dhcpMsgRelayRepl :: byte where "dhcpMsgRelayRepl \<equiv> 13"
abbreviation dhcpOptRelayMsg :: u16 where "dhcpOptRelayMsg \<equiv> 9"
abbreviation dhcpOptInterfaceID :: u16 where "dhcpOptInterfaceID \<equiv> 18"

definition dhcp_teardown :: "os \<Rightarrow> ptr \<Rightarrow> st \<Rightarrow> st" where
  "dhcp_teardown os p s =
     (case dhcp (heap s p) of
        None \<Rightarrow> s
      | Some d \<Rightarrow> upd p (\<lambda>i. i\<lparr>dhcp := None\<rparr>) (closeFD os (ds_fd d) (close_chan (ds_done d) s)))"

definition dhcp_options :: "int \<Rightarrow> Interface \<Rightarrow> (call \<times> string) list" where
  "dhcp_options fd i =
     [(bindToDevice fd (Ifname i), ''SO_BINDTODEVICE(%s): %v''),
      (setsockoptInt fd IPPROTO_IPV6 IPV6_V6ONLY 1, ''IPV6_V6ONLY: %v''),
      (setsockoptInt fd SOL_SOCKET SO_REUSEADDR 1, ''SO_REUSEADDR: %v''),
      (setsockoptInt fd IPPROTO_IPV6 IPV6_RECVPKTINFO 1, ''IPV6_RECVPKTINFO: %v''),
      (setsockoptInt fd IPPROTO_IPV6 IPV6_MULTICAST_HOPS (uint dhcpv6HopLimit), ''IPV6_MULTICAST_HOPS: %v''),
      (setsockoptInt fd IPPROTO_IPV6 IPV6_MULTICAST_LOOP 0, ''IPV6_MULTICAST_LOOP: %v''),
      (BindInet6 fd dhcpv6ServerPort, ''bind(:%d): %v''),
      (joinMulticast6 fd allDHCPv6Relays (Ifindex i) True, ''IPV6_ADD_MEMBERSHIP: %v'')]"

definition dhcpv6Setup :: "os \<Rightarrow> ptr \<Rightarrow> bool \<Rightarrow> st \<Rightarrow> errno option \<times> st" where
  "dhcpv6Setup os p enable s =
     (let enable = (enable \<and> DHCPv6 (heap s p) \<noteq> ModeDisabled);
          s = dhcp_teardown os p s
      in if \<not> enable then (None, s)
         else case sys_socket os UdpSocket s of
           (Inl e, s) \<Rightarrow> (Some e, Errorf ''socket(AF_INET6) for dhcpv6 relay on %s: %v'' s)
         | (Inr fd, s) \<Rightarrow>
             (case seq_calls os (dhcp_options fd (heap s p)) s of (e, s) \<Rightarrow>
                if e \<noteq> None then (e, closeFD os fd s)
                else case make_chan s of (ch, s) \<Rightarrow>
                  (let ds = \<lparr>ds_fd = fd, ds_iface = p, ds_done = ch\<rparr>
                   in (None, go (DhcpReader ds) (upd p (\<lambda>i. i\<lparr>dhcp := Some ds\<rparr>) s)))))"

text \<open>
  One round of \<^verbatim>\<open>dhcpReadLoop\<close>: whether \<^verbatim>\<open>done\<close> is closed at its two tests, and what \<^verbatim>\<open>Recvmsg\<close>
  returned (the datagram, the parsed control messages, the sender if it is an IPv6 address).
\<close>

definition dhcpReadLoop_round ::
  "bool \<Rightarrow> errno + bytes \<times> (errno + cmsg list) \<times> bytes option \<Rightarrow> bool \<Rightarrow> (addr \<times> bytes) readRound" where
  "dhcpReadLoop_round done1 recv done2 =
     (if done1 then ReadExit
      else case recv of
        Inl err \<Rightarrow> if err = EINTR then ReadNext else if done2 then ReadExit else ReadPause
      | Inr (data, oob, sender) \<Rightarrow>
          if data = [] then ReadNext
          else case parseCmsgs oob of (_, hoplimit, hasHL) \<Rightarrow>
            if hasHL \<and> hoplimit \<noteq> 255 then ReadNext
            else ReadPost (case sender of Some a \<Rightarrow> addrFrom16 a | None \<Rightarrow> ZeroAddr, data))"

section \<open>Sending\<close>

definition sendDHCPv6 :: "os \<Rightarrow> ptr \<Rightarrow> addr \<Rightarrow> int \<Rightarrow> bytes \<Rightarrow> st \<Rightarrow> st" where
  "sendDHCPv6 os p dest port payload s =
     (case dhcp (heap s p) of
        None \<Rightarrow> s
      | Some d \<Rightarrow>
          (let sa = sockaddrIn6 dest port (Ifindex (heap s p));
               oob = cmsgPktinfo (Ifindex (heap s p)) ZeroAddr
           in case sys os (Sendmsg (ds_fd d) payload oob sa) s of (e, s) \<Rightarrow>
                if e \<noteq> None then Errorf ''Failed to send DHCPv6 to %s%%%s@%s: %v'' s
                else Debugf ''Sent %d bytes DHCPv6 to %s%%%s@%s'' s))"

section \<open>Server to client\<close>

record replyOpts =
  ro_ifaceidx :: int
  ro_haveIface :: bool
  ro_payload :: bytes
  ro_havePayload :: bool

definition replyOpts_init :: replyOpts where
  "replyOpts_init = \<lparr>ro_ifaceidx = 0, ro_haveIface = False, ro_payload = [], ro_havePayload = False\<rparr>"

definition replyOption :: "u16 \<times> bytes \<Rightarrow> replyOpts \<Rightarrow> replyOpts" where
  "replyOption = (\<lambda>(otype, odata) acc.
     if otype = dhcpOptInterfaceID
     then (if length odata = 4
           then acc\<lparr>ro_ifaceidx := sint (le32_get odata), ro_haveIface := True\<rparr> else acc)
     else if otype = dhcpOptRelayMsg then acc\<lparr>ro_payload := odata, ro_havePayload := True\<rparr>
     else acc)"

function replyOptions :: "bytes \<Rightarrow> nat \<Rightarrow> replyOpts \<Rightarrow> replyOpts option" where
  "replyOptions data off acc =
     (if off + 4 \<le> length data
      then do {
        t \<leftarrow> slice data off (off + 2);
        l \<leftarrow> slice data (off + 2) (off + 4);
        odata \<leftarrow> slice data (off + 4) (length data);
        let olen = unat (be16_get l);
        if length odata < olen then Some acc
        else do {
          odata \<leftarrow> slice odata 0 olen;
          replyOptions data (off + (4 + olen)) (replyOption (be16_get t, odata) acc)
        }
      }
      else Some acc)"
  by pat_completeness auto
termination
  by (relation "measure (\<lambda>(data, off, acc). length data - off)") auto

declare replyOptions.simps [simp del]

definition relayServerResponse :: "os \<Rightarrow> bytes \<Rightarrow> st \<Rightarrow> st option" where
  "relayServerResponse os data s =
     (let s = Debugf ''Got a DHCPv6-relay-reply'' s
      in if length data < 34 then Some s
         else do {
           msgType \<leftarrow> at data 0;
           if msgType \<noteq> dhcpMsgRelayRepl then Some s
           else do {
             opts \<leftarrow> replyOptions data 34 replyOpts_init;
             let payload = ro_payload opts;
             if \<not> ro_haveIface opts \<or> \<not> ro_havePayload opts \<or> length payload < 4 then Some s
             else case ifaceByIndex os (ro_ifaceidx opts) s of
                 (None, s) \<Rightarrow> Some s
               | (Some p, s) \<Rightarrow>
                   if Master (heap s p) \<or> dhcp (heap s p) = None then Some s
                   else do {
                     inner \<leftarrow> at payload 0;
                     let targetPort = (if inner = dhcpMsgRelayRepl then dhcpv6ServerPort
                                       else dhcpv6ClientPort);
                     peer \<leftarrow> slice data 2 18;
                     Some (sendDHCPv6 os p (addrFrom16 peer) targetPort payload
                             (Debugf ''Sending a DHCPv6-reply on %s'' s))
                   }
           }
         })"

section \<open>Client to server\<close>

definition relayLinkAddressOrZero :: "os \<Rightarrow> ptr \<Rightarrow> st \<Rightarrow> addr \<times> st" where
  "relayLinkAddressOrZero os p s =
     (case relayLinkAddress os p s of
        (Some a, s) \<Rightarrow> (a, s) | (None, s) \<Rightarrow> (ipv6Unspecified, s))"

definition relayEnvelope :: "byte \<Rightarrow> addr \<Rightarrow> addr \<Rightarrow> int \<Rightarrow> bytes \<Rightarrow> bytes" where
  "relayEnvelope hopCount linkAddr source ifindex data =
     [dhcpMsgRelayForw, hopCount] @ as16 linkAddr @ as16 source
     @ be16_put dhcpOptInterfaceID @ be16_put 4 @ le32_put (word_of_int ifindex)
     @ be16_put dhcpOptRelayMsg @ be16_put (of_nat (length data)) @ data"

definition forward_on :: "os \<Rightarrow> addr \<Rightarrow> bytes \<Rightarrow> ptr \<Rightarrow> st \<Rightarrow> st" where
  "forward_on os target envelope c s =
     (if \<not> Master (heap s c) \<or> DHCPv6 (heap s c) \<noteq> ModeRelay \<or> dhcp (heap s c) = None then s
      else sendDHCPv6 os c target dhcpv6ServerPort envelope
             (Debugf ''Sending a DHCPv6-relay-forward on %s'' s))"

text \<open>From the choice of the link address on: build the envelope and send it upstream.\<close>

definition relayClientForward :: "os \<Rightarrow> addr \<Rightarrow> bytes \<Rightarrow> ptr \<Rightarrow> addr \<Rightarrow> byte \<Rightarrow> st \<Rightarrow> st" where
  "relayClientForward os source data p dest hopCount s =
     (case relayLinkAddressOrZero os p s of (linkAddr, s) \<Rightarrow>
        (let envelope = relayEnvelope hopCount linkAddr source (Ifindex (heap s p)) data;
             target = (if isValid dest then dest else allDHCPv6Server)
         in case range_interfaces os s of (cs, s) \<Rightarrow> fold (forward_on os target envelope) cs s))"

text \<open>A message type the \<^verbatim>\<open>switch\<close> does not list falls through it and is relayed.\<close>

definition relayClientRequest :: "os \<Rightarrow> addr \<Rightarrow> bytes \<Rightarrow> ptr \<Rightarrow> addr \<Rightarrow> st \<Rightarrow> st option" where
  "relayClientRequest os source data p dest s =
     (if length data < 2 then Some s
      else do {
        msgType \<leftarrow> at data 0;
        if msgType \<in> {dhcpMsgAdvertise, dhcpMsgReply, dhcpMsgReconfigure, dhcpMsgRelayRepl} then Some s
        else do {
          let s = Debugf ''Got a DHCPv6-request on %s'' s;
          if msgType = dhcpMsgRelayForw
          then do {
            hops \<leftarrow> at data 1;
            if dhcpv6HopLimit \<le> hops then Some s
            else Some (relayClientForward os source data p dest (hops + 1) s)
          }
          else Some (relayClientForward os source data p dest 0 s)
        }
      })"

definition handleDHCPv6 :: "os \<Rightarrow> dhcpSock \<Rightarrow> addr \<Rightarrow> bytes \<Rightarrow> st \<Rightarrow> st option" where
  "handleDHCPv6 os ds src data s =
     (let p = ds_iface ds
      in if dhcp (heap s p) \<noteq> Some ds \<or> DHCPv6 (heap s p) \<noteq> ModeRelay then Some s
         else if Master (heap s p) then relayServerResponse os data s
         else relayClientRequest os src data p ZeroAddr s)"

section \<open>The option walk against a reference parser\<close>

text \<open>The options of a DHCPv6 message, read by structural recursion on the bytes.\<close>

fun tlvs :: "bytes \<Rightarrow> (u16 \<times> bytes) list" where
  "tlvs (a # b # c # d # rest) =
     (let n = unat (be16_get [c, d])
      in if length rest < n then [] else (be16_get [a, b], take n rest) # tlvs (drop n rest))"
| "tlvs _ = []"

definition tlv_put :: "u16 \<times> bytes \<Rightarrow> bytes" where
  "tlv_put = (\<lambda>(t, d). be16_put t @ be16_put (of_nat (length d)) @ d)"

lemma tlvs_short: "length d < 4 \<Longrightarrow> tlvs d = []"
  by (cases d rule: tlvs.cases) auto

lemma tlvs_put: "length (snd o') < 65536 \<Longrightarrow> tlvs (tlv_put o' @ rest) = o' # tlvs rest"
proof -
  assume len: "length (snd o') < 65536"
  obtain t d where o': "o' = (t, d)" by (cases o')
  have "unat (of_nat (length d) :: u16) = length d"
    using len o' by (simp add: unat_of_nat take_bit_nat_eq_self)
  moreover obtain a b c e where "be16_put t = [a, b]" "be16_put (of_nat (length d)) = [c, e]"
    by (simp add: be16_put_def)
  ultimately show ?thesis
    using be16_get_put [of t] be16_get_put [of "of_nat (length d)"]
    by (simp add: o' tlv_put_def)
qed

lemma tlvs_concat_put:
  "\<forall>x \<in> set os. length (snd x) < 65536 \<Longrightarrow> tlvs (concat (map tlv_put os)) = os"
  by (induction os) (auto simp: tlvs_put)

lemma replyOptions_tlvs:
  "off \<le> length data \<Longrightarrow>
   replyOptions data off acc = Some (fold replyOption (tlvs (drop off data)) acc)"
proof (induction data off acc rule: replyOptions.induct)
  case (1 data off acc)
  show ?case
  proof (cases "off + 4 \<le> length data")
    case False
    then show ?thesis using "1.prems" by (simp add: replyOptions.simps [of data off] tlvs_short)
  next
    case True
    define n where "n = unat (be16_get [data ! (off + 2), data ! (off + 3)])"
    have d: "drop off data = data ! off # data ! (off + 1) # data ! (off + 2) # data ! (off + 3)
        # drop (off + 4) data"
      using True by (rule drop_four)
    have t: "take 2 (drop off data) = [data ! off, data ! (off + 1)]" using d by simp
    have "drop (off + 2) data = drop 2 (drop off data)" by (simp add: add.commute)
    then have l: "take 2 (drop (off + 2) data) = [data ! (off + 2), data ! (off + 3)]"
      using d by simp
    show ?thesis
    proof (cases "length (drop (off + 4) data) < n")
      case True
      with \<open>off + 4 \<le> length data\<close> t l show ?thesis
        by (simp add: replyOptions.simps [of data off] d n_def Let_def)
    next
      case False
      then have le: "off + (4 + n) \<le> length data" using True by simp
      have "tlvs (drop off data) =
          (be16_get [data ! off, data ! (off + 1)], take n (drop (off + 4) data))
          # tlvs (drop n (drop (off + 4) data))"
        using False unfolding d by (simp add: n_def Let_def)
      also have "drop n (drop (off + 4) data) = drop (off + (4 + n)) data"
        by (simp add: ac_simps)
      finally have w: "tlvs (drop off data) =
          (be16_get [data ! off, data ! (off + 1)], take n (drop (off + 4) data))
          # tlvs (drop (off + (4 + n)) data)" .
      have "replyOptions data off acc = replyOptions data (off + (4 + n))
          (replyOption (be16_get [data ! off, data ! (off + 1)], take n (drop (off + 4) data)) acc)"
        using True False t l by (subst replyOptions.simps) (simp add: n_def Let_def)
      also have "\<dots> = Some (fold replyOption (tlvs (drop (off + (4 + n)) data))
          (replyOption (be16_get [data ! off, data ! (off + 1)], take n (drop (off + 4) data)) acc))"
        using "1.IH" [OF True] True False t l le by (simp add: n_def)
      also have "\<dots> = Some (fold replyOption (tlvs (drop off data)) acc)"
        unfolding w by simp
      finally show ?thesis .
    qed
  qed
qed

section \<open>Frames\<close>

context quiet_obs
begin

lemma obs_sendDHCPv6 [simp]: "obs (sendDHCPv6 os p d n b s) = obs s"
  by (simp add: sendDHCPv6_def Let_def case_prod_beta split: option.split)

lemma obs_forward_on [simp]: "obs (forward_on os t e c s) = obs s"
  by (simp add: forward_on_def)

lemma obs_relayLinkAddressOrZero [simp]: "obs (snd (relayLinkAddressOrZero os p s)) = obs s"
  using obs_relayLinkAddress [of os p s]
  by (cases "relayLinkAddress os p s") (auto simp: relayLinkAddressOrZero_def split: option.split)

lemma obs_relayClientForward [simp]: "obs (relayClientForward os a b p d h s) = obs s"
  by (simp add: relayClientForward_def Let_def case_prod_beta fold_frame [where obs = obs])

lemma obs_relayServerResponse: "relayServerResponse os data s = Some s' \<Longrightarrow> obs s' = obs s"
  by (auto simp: relayServerResponse_def Let_def case_prod_beta split: if_splits option.splits Option.bind_splits)

end

lemma trace_relayLinkAddressOrZero [simp]:
  "trace (snd (relayLinkAddressOrZero os p s)) = trace s"
  using trace_relayLinkAddress [of os p s]
  by (cases "relayLinkAddress os p s") (auto simp: relayLinkAddressOrZero_def split: option.split)

definition send_call :: "addr \<Rightarrow> int \<Rightarrow> bytes \<Rightarrow> Interface \<Rightarrow> call list" where
  "send_call dest port payload i =
     (case dhcp i of
        None \<Rightarrow> []
      | Some d \<Rightarrow> [Sendmsg (ds_fd d) payload (cmsgPktinfo (Ifindex i) ZeroAddr)
                     (sockaddrIn6 dest port (Ifindex i))])"

lemma calls_sendDHCPv6 [simp]:
  "calls (trace (sendDHCPv6 os p d n b s)) = calls (trace s) @ send_call d n b (heap s p)"
  by (simp add: sendDHCPv6_def send_call_def Let_def case_prod_beta split: option.split)

section \<open>Replies\<close>

definition reply_ids :: "bytes \<Rightarrow> int list" where
  "reply_ids data = map (\<lambda>(t, d). sint (le32_get d))
     (filter (\<lambda>(t, d). t = dhcpOptInterfaceID \<and> length d = 4) (tlvs (drop 34 data)))"

definition reply_msgs :: "bytes \<Rightarrow> bytes list" where
  "reply_msgs data = map snd (filter (\<lambda>(t, d). t = dhcpOptRelayMsg) (tlvs (drop 34 data)))"

text \<open>
  What a Relay-Reply asks for: the interface index and the message to send there, from the last
  Interface-ID option of four bytes and the last Relay-Message option.
\<close>

definition reply_request :: "bytes \<Rightarrow> (int \<times> bytes) option" where
  "reply_request data =
     (if length data < 34 \<or> data ! 0 \<noteq> dhcpMsgRelayRepl \<or> reply_ids data = [] \<or> reply_msgs data = []
         \<or> length (last (reply_msgs data)) < 4
      then None else Some (last (reply_ids data), last (reply_msgs data)))"

lemma fold_replyOption:
  "fold replyOption os acc =
   (let ids = map (\<lambda>(t, d). sint (le32_get d)) (filter (\<lambda>(t, d). t = dhcpOptInterfaceID \<and> length d = 4) os);
        msgs = map snd (filter (\<lambda>(t, d). t = dhcpOptRelayMsg) os)
    in \<lparr>ro_ifaceidx = (if ids = [] then ro_ifaceidx acc else last ids),
        ro_haveIface = (ids \<noteq> [] \<or> ro_haveIface acc),
        ro_payload = (if msgs = [] then ro_payload acc else last msgs),
        ro_havePayload = (msgs \<noteq> [] \<or> ro_havePayload acc)\<rparr>)"
  by (induction os arbitrary: acc) (auto simp: Let_def replyOption_def split: if_splits)

lemma relayServerResponse_calls:
  "\<exists>s'. relayServerResponse os data s = Some s' \<and>
     calls (trace s') = calls (trace s) @
       (case reply_request data of
          None \<Rightarrow> []
        | Some (idx, payload) \<Rightarrow>
            (case fst (ifaceByIndex os idx s) of
               None \<Rightarrow> []
             | Some p \<Rightarrow>
                 if Master (heap s p) then []
                 else send_call (addrFrom16 (take 16 (drop 2 data)))
                   (if payload ! 0 = dhcpMsgRelayRepl then dhcpv6ServerPort else dhcpv6ClientPort)
                   payload (heap s p)))"
proof (cases "length data < 34")
  case True
  then show ?thesis by (simp add: relayServerResponse_def reply_request_def)
next
  case False
  then have opts: "replyOptions data 34 replyOpts_init =
      Some (fold replyOption (tlvs (drop 34 data)) replyOpts_init)"
    by (intro replyOptions_tlvs) simp
  have ne: "at data 0 = Some (data ! 0)" "Prelude.slice data 2 18 = Some (take 16 (drop 2 data))"
    using False by (cases data, simp_all)+
  show ?thesis
  proof (cases "reply_request data")
    case None
    with False opts show ?thesis
      by (auto simp: relayServerResponse_def Let_def reply_request_def fold_replyOption reply_ids_def
          reply_msgs_def replyOpts_init_def ne split: if_splits)
  next
    case (Some ip)
    then obtain idx payload where ip: "reply_request data = Some (idx, payload)" by (cases ip) auto
    then have pl: "at payload 0 = Some (payload ! 0)"
      by (cases payload) (auto simp: reply_request_def split: if_splits)
    from ip False opts have "relayServerResponse os data s =
        (case ifaceByIndex os idx (Debugf ''Got a DHCPv6-relay-reply'' s) of
           (None, s) \<Rightarrow> Some s
         | (Some p, s) \<Rightarrow> if Master (heap s p) \<or> dhcp (heap s p) = None then Some s
             else Some (sendDHCPv6 os p (addrFrom16 (take 16 (drop 2 data)))
                 (if payload ! 0 = dhcpMsgRelayRepl then dhcpv6ServerPort else dhcpv6ClientPort)
                 payload (Debugf ''Sending a DHCPv6-reply on %s'' s)))"
      by (auto simp: relayServerResponse_def Let_def reply_request_def fold_replyOption reply_ids_def
          reply_msgs_def replyOpts_init_def ne pl [unfolded ip] split: if_splits prod.split option.split)
    with ip show ?thesis
      by (cases "fst (ifaceByIndex os idx s)")
        (auto simp: case_prod_beta send_call_def prod_eq_iff split: prod.splits option.splits)
  qed
qed

lemma relayServerResponse_sends:
  "\<exists>s'. relayServerResponse os data s = Some s' \<and> own_state s' = own_state s \<and>
     calls (trace s') = calls (trace s) @
       (case reply_request data of
          None \<Rightarrow> []
        | Some (idx, payload) \<Rightarrow>
            (case fst (ifaceByIndex os idx s) of
               None \<Rightarrow> []
             | Some p \<Rightarrow>
                 if Master (heap s p) then []
                 else send_call (addrFrom16 (take 16 (drop 2 data)))
                   (if payload ! 0 = dhcpMsgRelayRepl then dhcpv6ServerPort else dhcpv6ClientPort)
                   payload (heap s p)))"
  using relayServerResponse_calls [of os data s] own_obs.obs_relayServerResponse [of os data s] by blast

text \<open>
  C5. \<^verbatim>\<open>relayServerResponse\<close> never panics, and its only effect on the network is at most one send: if
  the message is a Relay-Reply that names an interface and carries a message of at least four bytes,
  and the named interface is a downstream one with an open socket, that message is sent on its socket,
  to port 547 if it is itself a Relay-Reply and to port 546 otherwise; in every other case nothing is
  sent. Nothing the daemon owns changes: no field of any interface object, no registry entry, mirrored
  key, timer, channel, reader or flag.
\<close>

theorem relayServerResponse_correct:
  "\<exists>s'. relayServerResponse os data s = Some s' \<and> own_state s' = own_state s \<and>
     calls (trace s') = calls (trace s) @
       (case reply_request data of
          None \<Rightarrow> []
        | Some (idx, payload) \<Rightarrow>
            (case fst (ifaceByIndex os idx s) of
               None \<Rightarrow> []
             | Some p \<Rightarrow>
                 if Master (heap s p) then []
                 else send_call (addrFrom16 (take 16 (drop 2 data)))
                   (if payload ! 0 = dhcpMsgRelayRepl then dhcpv6ServerPort else dhcpv6ClientPort)
                   payload (heap s p)))"
  by (rule relayServerResponse_sends)

section \<open>Requests\<close>

text \<open>The hop count of the envelope of a client message, or \<open>None\<close> if it is not relayed.\<close>

definition clientHop :: "bytes \<Rightarrow> byte option" where
  "clientHop data =
     (if length data < 2 \<or> data ! 0 \<in> {dhcpMsgAdvertise, dhcpMsgReply, dhcpMsgReconfigure, dhcpMsgRelayRepl}
      then None
      else if data ! 0 \<noteq> dhcpMsgRelayForw then Some 0
      else if dhcpv6HopLimit \<le> data ! 1 then None else Some (data ! 1 + 1))"

definition upstream :: "Interface \<Rightarrow> bool" where
  "upstream i = (Master i \<and> DHCPv6 i = ModeRelay \<and> dhcp i \<noteq> None)"

lemma calls_forward_on:
  "calls (trace (fold (forward_on os t e) cs s)) =
   calls (trace s) @ concat (map (\<lambda>c. send_call t dhcpv6ServerPort e (heap s c))
     (filter (\<lambda>c. upstream (heap s c)) cs))"
  by (induction cs arbitrary: s) (auto simp: forward_on_def upstream_def)

lemma calls_relayClientForward:
  "calls (trace (relayClientForward os src data p dest h s)) =
   calls (trace s) @ concat (map (\<lambda>c. send_call (if isValid dest then dest else allDHCPv6Server)
        dhcpv6ServerPort (relayEnvelope h (fst (relayLinkAddressOrZero os p s)) src
          (Ifindex (heap s p)) data) (heap s c))
     (filter (\<lambda>c. upstream (heap s c))
       (fst (range_interfaces os (snd (relayLinkAddressOrZero os p s))))))"
  by (simp add: relayClientForward_def Let_def case_prod_beta calls_forward_on)

lemma relayClientRequest_hop:
  "relayClientRequest os src data p dest s =
   Some (case clientHop data of
           None \<Rightarrow> if length data < 2 \<or> data ! 0 \<noteq> dhcpMsgRelayForw then s
                   else Debugf ''Got a DHCPv6-request on %s'' s
         | Some h \<Rightarrow> relayClientForward os src data p dest h
                      (Debugf ''Got a DHCPv6-request on %s'' s))"
proof (cases "length data < 2")
  case False
  then have "at data 0 = Some (data ! 0)" "at data 1 = Some (data ! 1)"
    by (cases data, simp_all)+
  with False show ?thesis by (auto simp: relayClientRequest_def clientHop_def Let_def)
qed (simp add: relayClientRequest_def clientHop_def)

lemma fst_relayLinkAddressOrZero:
  "fst (relayLinkAddressOrZero os p s) =
   (case fst (relayLinkAddress os p s) of Some a \<Rightarrow> a | None \<Rightarrow> ipv6Unspecified)"
  by (cases "relayLinkAddress os p s") (simp add: relayLinkAddressOrZero_def split: option.split)

text \<open>
  C6. \<^verbatim>\<open>relayClientRequest\<close> never panics. A message that only a server sends, a message shorter than
  two bytes, and a Relay-Forward that has already crossed 32 relays are dropped. Every other message
  is sent exactly once on each upstream interface with an open socket and on no other interface, in
  one and the same envelope, to the given destination or else to the all-servers group, port 547.
\<close>

theorem relayClientRequest_correct:
  fixes os :: os and src :: addr and p :: ptr and s :: st
  defines "link \<equiv> (case fst (relayLinkAddress os p s) of Some a \<Rightarrow> a | None \<Rightarrow> ipv6Unspecified)"
  shows "\<exists>s' cs. relayClientRequest os src data p dest s = Some s' \<and> heap s' = heap s \<and>
     mset cs = mset (map snd (interfaces s)) \<and>
     calls (trace s') = calls (trace s) @
       (case clientHop data of
          None \<Rightarrow> []
        | Some h \<Rightarrow> concat (map (\<lambda>c. send_call (if isValid dest then dest else allDHCPv6Server)
              dhcpv6ServerPort (relayEnvelope h link src (Ifindex (heap s p)) data) (heap s c))
            (filter (\<lambda>c. upstream (heap s c)) cs)))"
proof -
  let ?d = "Debugf ''Got a DHCPv6-request on %s'' s"
  let ?cs = "fst (range_interfaces os (snd (relayLinkAddressOrZero os p ?d)))"
  have cs: "mset ?cs = mset (map snd (interfaces s))" by simp
  obtain s' where s': "relayClientRequest os src data p dest s = Some s'"
    by (simp add: relayClientRequest_hop)
  then have "heap s' = heap s"
    by (auto simp: relayClientRequest_hop split: option.split)
  moreover have "calls (trace s') = calls (trace s) @
       (case clientHop data of
          None \<Rightarrow> []
        | Some h \<Rightarrow> concat (map (\<lambda>c. send_call (if isValid dest then dest else allDHCPv6Server)
              dhcpv6ServerPort (relayEnvelope h link src (Ifindex (heap s p)) data) (heap s c))
            (filter (\<lambda>c. upstream (heap s c)) ?cs)))"
    using s' [symmetric]
    by (auto simp: relayClientRequest_hop calls_relayClientForward fst_relayLinkAddressOrZero link_def
        split: option.split)
  ultimately show ?thesis using s' cs by blast
qed

text \<open>
  The envelope carries exactly two options: the index of the receiving interface and the message.
\<close>

lemma tlvs_relayEnvelope:
  assumes "addr_wf link" "addr_wf src" "length data < 65536"
  shows "tlvs (drop 34 (relayEnvelope h link src i data)) =
    [(dhcpOptInterfaceID, le32_put (word_of_int i)), (dhcpOptRelayMsg, data)]"
proof -
  have "drop 34 (relayEnvelope h link src i data) = concat (map tlv_put
      [(dhcpOptInterfaceID, le32_put (word_of_int i)), (dhcpOptRelayMsg, data)])"
    using assms by (simp add: relayEnvelope_def tlv_put_def)
  then show ?thesis
    using assms tlvs_concat_put [of "[(dhcpOptInterfaceID, le32_put (word_of_int i)), (dhcpOptRelayMsg, data)]"]
    by simp
qed

text \<open>The answer of a server: the header of the request with the reply type, and the reply options.\<close>

definition server_reply :: "byte \<Rightarrow> bytes \<Rightarrow> bytes \<Rightarrow> (u16 \<times> bytes) list \<Rightarrow> bytes" where
  "server_reply hop link peer opts = [dhcpMsgRelayRepl, hop] @ link @ peer @ concat (map tlv_put opts)"

lemma sint_word_of_int32:
  "- (2 ^ 31) \<le> i \<Longrightarrow> i < 2 ^ 31 \<Longrightarrow> sint (word_of_int i :: u32) = i"
  by (simp add: sint_sbintrunc' signed_take_bit_int_eq_self)

lemma addr_wf_link:
  assumes "\<forall>a \<in> set (Addr6 (heap s p)). addr_wf (Addr a)"
  shows "addr_wf (case fst (relayLinkAddress os p s) of Some a \<Rightarrow> a | None \<Rightarrow> ipv6Unspecified)"
proof -
  have "pickLinkAddress now best as = Some a \<Longrightarrow> a \<in> set as \<or> best = Some a" for now best as a
    by (induction now best as rule: pickLinkAddress.induct) (auto split: if_splits option.splits)
  from this [of _ None] show ?thesis
    using assms by (auto simp: relayLinkAddress_def case_prod_beta ipv6Unspecified_def split: option.split)
qed

text \<open>What a relay sends for a client message: one envelope, on the sockets of upstream interfaces.\<close>

lemma relayClientRequest_sends:
  assumes "relayClientRequest os src data p dest s = Some s'"
    and "calls (trace s') = calls (trace s) @ cs" "Sendmsg fd env oob sa \<in> set cs"
  shows "\<exists>h. clientHop data = Some h \<and> env = relayEnvelope h
    (case fst (relayLinkAddress os p s) of Some a \<Rightarrow> a | None \<Rightarrow> ipv6Unspecified) src (Ifindex (heap s p)) data"
proof -
  have "cs = (case clientHop data of None \<Rightarrow> [] | Some h \<Rightarrow>
      concat (map (\<lambda>c. send_call (if isValid dest then dest else allDHCPv6Server) dhcpv6ServerPort
          (relayEnvelope h (case fst (relayLinkAddress os p s) of Some a \<Rightarrow> a | None \<Rightarrow> ipv6Unspecified)
             src (Ifindex (heap s p)) data) (heap s c))
        (filter (\<lambda>c. upstream (heap s c))
          (fst (range_interfaces os (snd (relayLinkAddressOrZero os p
             (Debugf ''Got a DHCPv6-request on %s'' s))))))))"
    using assms(1,2) by (auto simp: relayClientRequest_hop calls_relayClientForward fst_relayLinkAddressOrZero
        split: option.splits if_splits)
  with assms(3) show ?thesis
    by (auto simp: send_call_def split: option.splits)
qed

text \<open>
  C20. The Interface-ID round trip. Take any envelope \<^verbatim>\<open>relayClientRequest\<close> sends for a message received on
  an interface, and let the server answer the way RFC 8415 asks, echoing the Interface-ID option of the
  envelope unchanged and putting its answer into a Relay-Message option. Whenever
  \<^verbatim>\<open>relayServerResponse\<close> gets that reply, in whatever state, and the index of that interface is then the
  one of a downstream interface with an open socket, it sends the server's answer, byte for byte, on
  that interface's socket, and makes no other call.
\<close>

theorem relay_interface_id_roundtrip:
  assumes "relayClientRequest os src data p dest s = Some s1"
    and "calls (trace s1) = calls (trace s) @ cs" "Sendmsg fd env oob sa \<in> set cs"
    and "\<forall>a \<in> set (Addr6 (heap s p)). addr_wf (Addr a)" "addr_wf src" "length data < 65536"
    and "- (2 ^ 31) \<le> Ifindex (heap s p)" "Ifindex (heap s p) < 2 ^ 31"
    and "length l = 16" "length q = 16" "4 \<le> length answer" "length answer < 65536"
    and "reply = server_reply hop l q
      (filter (\<lambda>x. fst x = dhcpOptInterfaceID) (tlvs (drop 34 env)) @ [(dhcpOptRelayMsg, answer)])"
    and "fst (ifaceByIndex os2 (Ifindex (heap s p)) s2) = Some c" "\<not> Master (heap s2 c)"
    and "dhcp (heap s2 c) = Some d"
  shows "\<exists>s3 oob sa. relayServerResponse os2 reply s2 = Some s3 \<and>
    calls (trace s3) = calls (trace s2) @ [Sendmsg (ds_fd d) answer oob sa]"
proof -
  let ?i = "Ifindex (heap s p)"
  let ?os = "[(dhcpOptInterfaceID, le32_put (word_of_int ?i)), (dhcpOptRelayMsg, answer)]"
  let ?link = "case fst (relayLinkAddress os p s) of Some a \<Rightarrow> a | None \<Rightarrow> ipv6Unspecified"
  obtain h where env: "env = relayEnvelope h ?link src ?i data"
    using relayClientRequest_sends [OF assms(1-3)] by blast
  have r: "reply = server_reply hop l q ?os"
    using assms(13) tlvs_relayEnvelope [OF addr_wf_link [OF assms(4), of os] assms(5,6), where h = h and i = ?i]
    unfolding env by simp
  have "drop 34 reply = concat (map tlv_put ?os)" using assms by (simp add: r server_reply_def)
  then have "tlvs (drop 34 reply) = ?os" using assms tlvs_concat_put [of ?os] by simp
  then have "reply_request reply = Some (?i, answer)"
    using assms by (simp add: reply_request_def reply_ids_def reply_msgs_def sint_word_of_int32)
      (simp add: server_reply_def)
  then show ?thesis
    using relayServerResponse_sends [of os2 reply s2] assms(14-16) by (auto simp: send_call_def)
qed

text \<open>
  C35. The reply goes to the wrong address: for a well-formed Relay-Reply, the address
  \<^verbatim>\<open>relayServerResponse\<close> sends the answer to is the link-address field of the header (the first one),
  and not the peer-address field behind it, which is where the relayed client is.
\<close>

theorem relayServerResponse_uses_link_address:
  assumes "length l = 16" "length q = 16" "data = server_reply hop l q opts"
    and "reply_request data = Some (idx, payload)"
    and "fst (ifaceByIndex os idx s) = Some p" "\<not> Master (heap s p)" "dhcp (heap s p) = Some d"
  shows "\<exists>s' oob sa. relayServerResponse os data s = Some s' \<and>
    calls (trace s') = calls (trace s) @ [Sendmsg (ds_fd d) payload oob sa] \<and> sa_Addr sa = l"
proof -
  have "take 16 (drop 2 data) = l" using assms by (simp add: server_reply_def)
  then show ?thesis
    using relayServerResponse_sends [of os data s] assms
    by (auto simp: send_call_def sockaddrIn6_def)
qed

section \<open>Relay chains\<close>

text \<open>
  A relay running this code, in some state and whatever the outside answers, sends the message \<open>f\<close> for a
  message \<open>e\<close> it receives; and a message handed on by \<open>n\<close> such relays.
\<close>

definition forwards :: "bytes \<Rightarrow> bytes \<Rightarrow> bool" where
  "forwards e f = (\<exists>os src p dest s s' cs fd oob sa. relayClientRequest os src e p dest s = Some s' \<and>
     calls (trace s') = calls (trace s) @ cs \<and> Sendmsg fd f oob sa \<in> set cs)"

inductive relayed :: "nat \<Rightarrow> bytes \<Rightarrow> bytes \<Rightarrow> bool" where
  relayed_0: "relayed 0 d d"
| relayed_Suc: "relayed n d e \<Longrightarrow> forwards e f \<Longrightarrow> relayed (Suc n) d f"

inductive_cases relayed_SucE: "relayed (Suc n) d f"

lemma forwards_hop:
  assumes "forwards e f"
  shows "\<exists>h. clientHop e = Some h \<and> f ! 0 = dhcpMsgRelayForw \<and> f ! 1 = h"
proof -
  from assms obtain os src p dest s s' cs fd oob sa where
    "relayClientRequest os src e p dest s = Some s'" "calls (trace s') = calls (trace s) @ cs"
    "Sendmsg fd f oob sa \<in> set cs"
    unfolding forwards_def by blast
  from relayClientRequest_sends [OF this] show ?thesis by (auto simp: relayEnvelope_def)
qed

lemma clientHop_first: "data ! 0 \<noteq> dhcpMsgRelayForw \<Longrightarrow> clientHop data = Some h \<Longrightarrow> h = 0"
  by (auto simp: clientHop_def split: if_splits)

lemma clientHop_next:
  assumes "clientHop e = Some h" "e ! 0 = dhcpMsgRelayForw"
  shows "unat (e ! 1) < 32 \<and> unat h = unat (e ! 1) + 1"
proof -
  have lt: "unat (e ! 1) < 32" and h: "h = e ! 1 + 1"
    using assms by (auto simp: clientHop_def word_le_nat_alt split: if_splits)
  then show ?thesis by (simp add: unat_word_ariths)
qed

text \<open>
  C27. Relay loops end: a message that is not itself a Relay-Forward is handed on by at most 33 relays
  running this code, whatever states they are in and whatever the kernel answers; the hop count of what
  the n-th relay sends is n - 1, so it never wraps around.
\<close>

theorem relay_chain_bounded:
  assumes "relayed n data e" "data ! 0 \<noteq> dhcpMsgRelayForw"
  shows "n \<le> 33 \<and> (0 < n \<longrightarrow> e ! 0 = dhcpMsgRelayForw \<and> unat (e ! 1) = n - 1)"
  using assms
proof (induction rule: relayed.induct)
  case (relayed_Suc n d e f)
  obtain h where h: "clientHop e = Some h" "f ! 0 = dhcpMsgRelayForw" "f ! 1 = h"
    using forwards_hop [OF relayed_Suc.hyps(2)] by blast
  show ?case
  proof (cases n)
    case 0
    then have "e = d" using relayed_Suc.hyps(1) by (auto elim: relayed.cases)
    then show ?thesis using h 0 clientHop_first [OF relayed_Suc.prems] by simp
  next
    case (Suc m)
    then show ?thesis using relayed_Suc h clientHop_next [OF h(1)] by simp
  qed
qed simp

section \<open>Witnesses\<close>

definition demo_client :: addr where
  "demo_client = V6 [0xfe, 0x80, 0, 0, 0, 0, 0, 0, 0, 0, 0, 0, 0, 0, 0, 9]"

definition demo_solicit :: bytes where
  "demo_solicit = [dhcpMsgSolicit, 0xaa, 0xbb, 0xcc]"

text \<open>The server's answer to \<^term>\<open>demo_solicit\<close> received on the downstream interface (index 3).\<close>

definition demo_reply :: bytes where
  "demo_reply = server_reply 0 (as16 demo_lan_addr) (as16 demo_client)
     [(dhcpOptInterfaceID, le32_put 3), (dhcpOptRelayMsg, [dhcpMsgAdvertise, 0xaa, 0xbb, 0xcc])]"

lemma demo_reply_request: "reply_request demo_reply = Some (3, [dhcpMsgAdvertise, 0xaa, 0xbb, 0xcc])"
  by (simp add: reply_request_def reply_ids_def reply_msgs_def demo_reply_def server_reply_def
      demo_defs demo_client_def tlv_put_def be16_put_def be16_get_def le32_put_def le32_get_def)

lemma demo_lookup_lan: "fst (ifaceByIndex demo_os 3 demo_st) = Some 1"
  by (simp add: ifaceByIndex_def range_interfaces_def demo_defs)

text \<open>What the downstream interface's relay sends in the concrete state: one envelope, on descriptor 4.\<close>

lemma demo_relayed:
  assumes "clientHop data = Some h"
  shows "\<exists>s' oob sa. relayClientRequest demo_os demo_client data 1 ZeroAddr demo_st = Some s' \<and>
    calls (trace s') = [Sendmsg 4 (relayEnvelope h demo_lan_addr demo_client 3 data) oob sa]"
proof -
  let ?d = "Debugf ''Got a DHCPv6-request on %s'' demo_st"
  have l: "fst (relayLinkAddressOrZero demo_os 1 ?d) = demo_lan_addr"
    by (simp add: fst_relayLinkAddressOrZero relayLinkAddress_def case_prod_beta nowMono_def) (simp add: demo_defs)
  have r: "fst (range_interfaces demo_os (snd (relayLinkAddressOrZero demo_os 1 ?d))) = [0, 1]"
    by (simp add: range_interfaces_def)
  have "filter (\<lambda>c. upstream (heap demo_st c)) [0, 1] = [0]"
    by (simp add: upstream_def demo_defs)
  then have "calls (trace (relayClientForward demo_os demo_client data 1 ZeroAddr h ?d)) =
      send_call allDHCPv6Server dhcpv6ServerPort (relayEnvelope h demo_lan_addr demo_client 3 data) demo_wan"
    unfolding calls_relayClientForward l r by (simp add: isValid_def demo_lan_def)
  then show ?thesis
    using assms by (simp add: relayClientRequest_hop send_call_def demo_wan_def)
qed

theorem relay_interface_id_roundtrip_witness:
  "\<exists>s1 env oob sa. relayClientRequest demo_os demo_client demo_solicit 1 ZeroAddr demo_st = Some s1 \<and>
     calls (trace s1) = [Sendmsg 4 env oob sa] \<and>
     (\<exists>s3 oob sa. relayServerResponse demo_os (server_reply 0 (as16 demo_lan_addr) (as16 demo_client)
          (filter (\<lambda>x. fst x = dhcpOptInterfaceID) (tlvs (drop 34 env))
             @ [(dhcpOptRelayMsg, [dhcpMsgAdvertise, 0xaa, 0xbb, 0xcc])])) demo_st = Some s3 \<and>
        calls (trace s3) = [Sendmsg 8 [dhcpMsgAdvertise, 0xaa, 0xbb, 0xcc] oob sa])"
proof -
  let ?env = "relayEnvelope 0 demo_lan_addr demo_client 3 demo_solicit"
  have "clientHop demo_solicit = Some 0" by (simp add: clientHop_def demo_solicit_def)
  then obtain s1 oob sa where s1: "relayClientRequest demo_os demo_client demo_solicit 1 ZeroAddr demo_st = Some s1"
    "calls (trace s1) = [Sendmsg 4 ?env oob sa]"
    using demo_relayed by blast
  have w: "\<forall>a \<in> set (Addr6 (heap demo_st 1)). addr_wf (Addr a)" "addr_wf demo_client"
    by (simp_all add: demo_lan_def demo_lan_addr_def demo_client_def)
  have i: "Ifindex (heap demo_st 1) = 3" "\<not> Master (heap demo_st 1)"
    "dhcp (heap demo_st 1) = Some \<lparr>ds_fd = 8, ds_iface = 1, ds_done = 4\<rparr>"
    by (simp_all add: demo_lan_def setInterfaceDefaults_def zeroInterface_def)
  have "\<exists>s3 oob sa. relayServerResponse demo_os (server_reply 0 (as16 demo_lan_addr) (as16 demo_client)
          (filter (\<lambda>x. fst x = dhcpOptInterfaceID) (tlvs (drop 34 ?env))
             @ [(dhcpOptRelayMsg, [dhcpMsgAdvertise, 0xaa, 0xbb, 0xcc])])) demo_st = Some s3 \<and>
        calls (trace s3) = calls (trace demo_st) @ [Sendmsg 8 [dhcpMsgAdvertise, 0xaa, 0xbb, 0xcc] oob sa]"
    using relay_interface_id_roundtrip [OF s1(1) _ _ w, where cs = "[Sendmsg 4 ?env oob sa]"
        and env = ?env and fd = 4 and ?oob = oob and ?sa = sa and c = 1 and ?s2.0 = demo_st and ?os2.0 = demo_os
        and d = "\<lparr>ds_fd = 8, ds_iface = 1, ds_done = 4\<rparr>" and answer = "[dhcpMsgAdvertise, 0xaa, 0xbb, 0xcc]"
        and l = "as16 demo_lan_addr" and q = "as16 demo_client" and hop = 0, OF _ _ _ _ _ _ _ _ _ refl]
      s1(2) i demo_lookup_lan
    by (simp add: demo_solicit_def demo_lan_addr_def demo_client_def)
  then show ?thesis using s1 by auto
qed

theorem relayServerResponse_uses_link_address_witness:
  "as16 demo_lan_addr \<noteq> as16 demo_client \<and>
   (\<exists>s' oob sa. relayServerResponse demo_os demo_reply demo_st = Some s' \<and>
      calls (trace s') = [Sendmsg 8 [dhcpMsgAdvertise, 0xaa, 0xbb, 0xcc] oob sa] \<and>
      sa_Addr sa = as16 demo_lan_addr)"
proof -
  have l: "length (as16 demo_lan_addr) = 16" "length (as16 demo_client) = 16"
    by (simp_all add: demo_lan_addr_def demo_client_def)
  have i: "\<not> Master (heap demo_st 1)" "dhcp (heap demo_st 1) = Some \<lparr>ds_fd = 8, ds_iface = 1, ds_done = 4\<rparr>"
    by (simp_all add: demo_defs)
  have "as16 demo_lan_addr \<noteq> as16 demo_client" by (simp add: demo_lan_addr_def demo_client_def)
  then show ?thesis
    using relayServerResponse_uses_link_address
      [OF l demo_reply_def demo_reply_request demo_lookup_lan i]
    by simp
qed

lemma demo_chain: "n \<le> 32 \<Longrightarrow> \<exists>e. relayed (Suc n) demo_solicit e \<and> e ! 0 = dhcpMsgRelayForw \<and>
    unat (e ! 1) = n \<and> 2 \<le> length e"
proof (induction n)
  case 0
  have "clientHop demo_solicit = Some 0" by (simp add: clientHop_def demo_solicit_def)
  from demo_relayed [OF this] have "forwards demo_solicit (relayEnvelope 0 demo_lan_addr demo_client 3 demo_solicit)"
    unfolding forwards_def by fastforce
  from relayed_Suc [OF relayed_0 this] show ?case by (fastforce simp: relayEnvelope_def)
next
  case (Suc n)
  then obtain e where e: "relayed (Suc n) demo_solicit e" "e ! 0 = dhcpMsgRelayForw" "unat (e ! 1) = n" "2 \<le> length e"
    by auto
  then have h: "clientHop e = Some (e ! 1 + 1)"
    using Suc.prems by (simp add: clientHop_def word_le_nat_alt)
  from demo_relayed [OF h] have "forwards e (relayEnvelope (e ! 1 + 1) demo_lan_addr demo_client 3 e)"
    unfolding forwards_def by fastforce
  from relayed_Suc [OF e(1) this] show ?case
    using clientHop_next [OF h e(2)] e(3) by (fastforce simp: relayEnvelope_def)
qed

text \<open>The bound is reached: the message of the concrete client passes 33 relays, and no more.\<close>

theorem relay_chain_bounded_witness:
  "(\<exists>e. relayed 33 demo_solicit e \<and> unat (e ! 1) = 32) \<and> \<not> (\<exists>e. relayed 34 demo_solicit e)"
proof -
  have d: "demo_solicit ! 0 \<noteq> dhcpMsgRelayForw" by (simp add: demo_solicit_def)
  have "\<exists>e. relayed 33 demo_solicit e" using demo_chain [of 32] by auto
  then show ?thesis using relay_chain_bounded [OF _ d] by fastforce
qed

end
