(* ===== verification/Router.thy ===== *)
theory Router
  imports Rawsock
begin

text \<open>
  \<^verbatim>\<open>router.go\<close>: the raw ICMPv6 socket per interface, the timer that solicits router advertisements on
  an upstream interface, and the relaying of Router Solicitations upstream and Router Advertisements
  downstream, with the source link-layer address option rewritten in place.
\<close>

section \<open>Constants and socket\<close>

abbreviation maxRtrSolicitations :: int where "maxRtrSolicitations \<equiv> 3"
abbreviation rtrSolicitationInterval :: nat where "rtrSolicitationInterval \<equiv> 4000"
abbreviation ndRouterSolicit :: nat where "ndRouterSolicit \<equiv> 133"
abbreviation ndRouterAdvert :: nat where "ndRouterAdvert \<equiv> 134"
abbreviation ndOptSourceLinkAddr :: byte where "ndOptSourceLinkAddr \<equiv> 1"

definition router_teardown :: "os \<Rightarrow> ptr \<Rightarrow> st \<Rightarrow> st" where
  "router_teardown os p s =
     (case router (heap s p) of
        None \<Rightarrow> s
      | Some r \<Rightarrow> upd p (\<lambda>i. i\<lparr>router := None\<rparr>) (closeFD os (rs_fd r) (close_chan (rs_done r) s)))"

definition stop_rsTimer :: "ptr \<Rightarrow> st \<Rightarrow> st" where
  "stop_rsTimer p s =
     (case rsTimer (heap s p) of
        None \<Rightarrow> s
      | Some t \<Rightarrow> upd p (\<lambda>i. i\<lparr>rsTimer := None\<rparr>) (timer_Stop t s))"

text \<open>\<^verbatim>\<open>iface.rsTimer = time.AfterFunc(d, func() { Eng.Post(func() { solicitTimerFire(iface, gen) }) })\<close>\<close>

definition arm_rsTimer :: "nat \<Rightarrow> ptr \<Rightarrow> int \<Rightarrow> st \<Rightarrow> st" where
  "arm_rsTimer ms p gen s =
     (case AfterFunc ms (SolicitTimer p gen) s of (t, s) \<Rightarrow> upd p (\<lambda>i. i\<lparr>rsTimer := Some t\<rparr>) s)"

definition router_options :: "int \<Rightarrow> Interface \<Rightarrow> (call \<times> string) list" where
  "router_options fd i =
     [(bindToDevice fd (Ifname i), ''SO_BINDTODEVICE(%s): %v''),
      (setsockoptInt fd IPPROTO_RAW IPV6_CHECKSUM 2, ''IPV6_CHECKSUM: %v''),
      (setsockoptInt fd IPPROTO_IPV6 IPV6_MULTICAST_HOPS 255, ''IPV6_MULTICAST_HOPS: %v''),
      (setsockoptInt fd IPPROTO_IPV6 IPV6_UNICAST_HOPS 255, ''IPV6_UNICAST_HOPS: %v''),
      (setsockoptInt fd IPPROTO_IPV6 IPV6_RECVPKTINFO 1, ''IPV6_RECVPKTINFO: %v''),
      (setsockoptInt fd IPPROTO_IPV6 IPV6_RECVHOPLIMIT 1, ''IPV6_RECVHOPLIMIT: %v''),
      (setsockoptInt fd IPPROTO_IPV6 IPV6_MULTICAST_LOOP 0, ''IPV6_MULTICAST_LOOP: %v'')]"

definition router_filter :: "u32 list option" where
  "router_filter = do {
     filt \<leftarrow> icmp6FilterSetPass icmp6FilterBlockAll ndRouterAdvert;
     icmp6FilterSetPass filt ndRouterSolicit
   }"

definition router_joins :: "int \<Rightarrow> u32 list \<Rightarrow> Interface \<Rightarrow> (call \<times> string) list" where
  "router_joins fd filt i =
     [(ICMPv6Filter fd filt, ''ICMP6_FILTER: %v''),
      (joinMulticast6 fd (if Master i then allIPv6Nodes else allIPv6Routers) (Ifindex i) True,
       ''IPV6_ADD_MEMBERSHIP: %v'')]"

text \<open>A panic of the filter code is recorded in the state (\<open>router_filter_def\<close> shows there is none).\<close>

definition routerSetup :: "os \<Rightarrow> ptr \<Rightarrow> bool \<Rightarrow> st \<Rightarrow> errno option \<times> st" where
  "routerSetup os p enable s =
     (let enable = (enable \<and> RA (heap s p) \<noteq> ModeDisabled);
          s = router_teardown os p s
      in if \<not> enable then (None, stop_rsTimer p s)
         else case sys_socket os RawICMPv6Socket s of
           (Inl e, s) \<Rightarrow> (Some e, Errorf ''socket(AF_INET6) for router relay on %s: %v'' s)
         | (Inr fd, s) \<Rightarrow>
             (case seq_calls os (router_options fd (heap s p)) s of (e, s) \<Rightarrow>
                if e \<noteq> None then (e, closeFD os fd s)
                else case router_filter of
                  None \<Rightarrow> (None, s\<lparr>panicked := True\<rparr>)
                | Some filt \<Rightarrow>
                    (case seq_calls os (router_joins fd filt (heap s p)) s of (e, s) \<Rightarrow>
                       if e \<noteq> None then (e, closeFD os fd s)
                       else case make_chan s of (ch, s) \<Rightarrow>
                         (let rs = \<lparr>rs_fd = fd, rs_iface = p, rs_done = ch\<rparr>;
                              s = go (RouterReader rs) (upd p (\<lambda>i. i\<lparr>router := Some rs, raSent := 0\<rparr>) s)
                          in if Master (heap s p)
                             then (let s = upd p (\<lambda>i. i\<lparr>rsTimerN := rsTimerN i + 1\<rparr>) s
                                   in (None, arm_rsTimer 100 p (rsTimerN (heap s p)) s))
                             else (None, s)))))"

section \<open>Router Solicitations\<close>

definition sendICMP6 :: "os \<Rightarrow> ptr \<Rightarrow> addr \<Rightarrow> int \<Rightarrow> bytes \<Rightarrow> st \<Rightarrow> errno option \<times> st" where
  "sendICMP6 os p dest ifindex payload s =
     (case router (heap s p) of
        None \<Rightarrow> (Some EBADF, s)
      | Some r \<Rightarrow> sendICMP6FD os (rs_fd r) dest ifindex ZeroAddr payload s)"

definition rs_packet :: "errno + bytes \<Rightarrow> bytes" where
  "rs_packet mac =
     of_nat ndRouterSolicit # replicate 7 0
     @ (case mac of Inl _ \<Rightarrow> [] | Inr hw \<Rightarrow> [ndOptSourceLinkAddr, 1] @ take 6 hw)"

definition sendRouterSolicitation :: "os \<Rightarrow> ptr \<Rightarrow> st \<Rightarrow> bool \<times> st" where
  "sendRouterSolicitation os p s =
     (if router (heap s p) = None then (False, s)
      else case getMAC os p s of (mac, s) \<Rightarrow>
        (case sendICMP6 os p allIPv6Routers (Ifindex (heap s p)) (rs_packet mac) s of
           (e, s) \<Rightarrow> (e = None, s)))"

definition solicitTimerFire :: "os \<Rightarrow> ptr \<Rightarrow> int \<Rightarrow> st \<Rightarrow> st" where
  "solicitTimerFire os p gen s =
     (if rsTimerN (heap s p) \<noteq> gen \<or> router (heap s p) = None \<or> \<not> Master (heap s p)
         \<or> RA (heap s p) \<noteq> ModeRelay then s
      else case getLinkLocalAddr p s of
          (None, s) \<Rightarrow> arm_rsTimer rtrSolicitationInterval p gen s
        | (Some _, s) \<Rightarrow>
            (case sendRouterSolicitation os p s of
               (False, s) \<Rightarrow> arm_rsTimer rtrSolicitationInterval p gen s
             | (True, s) \<Rightarrow>
                 (let s = upd p (\<lambda>i. i\<lparr>raSent := raSent i + 1\<rparr>) s
                  in if raSent (heap s p) < maxRtrSolicitations
                     then arm_rsTimer rtrSolicitationInterval p gen s else s)))"

definition solicit_on :: "os \<Rightarrow> int \<Rightarrow> ptr \<Rightarrow> st \<Rightarrow> st" where
  "solicit_on os own c s =
     (if Ifindex (heap s c) = own \<or> \<not> Master (heap s c) \<or> RA (heap s c) \<noteq> ModeRelay then s
      else snd (sendRouterSolicitation os c s))"

definition forwardRouterSolicitation :: "os \<Rightarrow> ptr \<Rightarrow> st \<Rightarrow> st" where
  "forwardRouterSolicitation os p s =
     (case range_interfaces os s of (cs, s) \<Rightarrow> fold (solicit_on os (Ifindex (heap s p))) cs s)"

section \<open>Router Advertisements\<close>

function fixOptions :: "bytes \<Rightarrow> bytes \<Rightarrow> nat \<Rightarrow> bytes option" where
  "fixOptions data mac opt =
     (if opt + 2 \<le> length data
      then do {
        optType \<leftarrow> at data opt;
        l \<leftarrow> at data (opt + 1);
        let optLen = unat l * 8;
        if optLen = 0 \<or> length data < opt + optLen then Some data
        else if optType = ndOptSourceLinkAddr
        then do {
          let n = min (optLen - 2) 6;
          m \<leftarrow> slice mac 0 n;
          data' \<leftarrow> copy_into data (opt + 2) (opt + 2 + n) m;
          fixOptions data' mac (opt + optLen)
        }
        else fixOptions data mac (opt + optLen)
      }
      else Some data)"
  by pat_completeness auto
termination
  by (relation "measure (\<lambda>(data, mac, opt). length data - opt)") (auto dest: copy_into_length)

declare fixOptions.simps [simp del]

definition fixSourceLinkAddrOption :: "bytes \<Rightarrow> bytes \<Rightarrow> bytes option" where
  "fixSourceLinkAddrOption data mac = (if length data < 16 then Some data else fixOptions data mac 16)"

definition advertise_on :: "os \<Rightarrow> int \<Rightarrow> bytes \<Rightarrow> ptr \<Rightarrow> st \<Rightarrow> st option" where
  "advertise_on os own data c s =
     (if Ifindex (heap s c) = own \<or> Master (heap s c) \<or> RA (heap s c) \<noteq> ModeRelay then Some s
      else case getMAC os c s of (mac, s) \<Rightarrow> do {
        out \<leftarrow> (case mac of Inl _ \<Rightarrow> Some data
               | Inr hw \<Rightarrow> fixSourceLinkAddrOption data (hwAddrBytes6 hw));
        Some (snd (sendICMP6 os c allIPv6Nodes (Ifindex (heap s c)) out s))
      })"

definition forwardRouterAdvertisement :: "os \<Rightarrow> ptr \<Rightarrow> bytes \<Rightarrow> st \<Rightarrow> st option" where
  "forwardRouterAdvertisement os p data s =
     (case range_interfaces os s of (cs, s) \<Rightarrow>
        fold_opt (advertise_on os (Ifindex (heap s p)) data) cs s)"

section \<open>Receiving\<close>

definition routerReadLoop_round ::
  "bool \<Rightarrow> errno + bytes \<times> (errno + cmsg list) \<Rightarrow> bool \<Rightarrow> bytes readRound" where
  "routerReadLoop_round done1 recv done2 =
     (if done1 then ReadExit
      else case recv of
        Inl err \<Rightarrow> if err = EINTR then ReadNext else if done2 then ReadExit else ReadPause
      | Inr (data, oob) \<Rightarrow>
          if data = [] then ReadNext
          else case parseCmsgs oob of (_, hoplimit, hasHL) \<Rightarrow>
            if hasHL \<and> hoplimit \<noteq> 255 then ReadNext else ReadPost data)"

definition handleICMPv6 :: "os \<Rightarrow> routerSock \<Rightarrow> bytes \<Rightarrow> st \<Rightarrow> st option" where
  "handleICMPv6 os rs data s =
     (let p = rs_iface rs
      in if router (heap s p) \<noteq> Some rs \<or> RA (heap s p) \<noteq> ModeRelay then Some s
         else if length data < 4 then Some s
         else do {
           icmpType \<leftarrow> at data 0;
           icmpCode \<leftarrow> at data 1;
           if icmpCode \<noteq> 0 then Some s
           else if icmpType = of_nat ndRouterSolicit then Some (forwardRouterSolicitation os p s)
           else if icmpType = of_nat ndRouterAdvert then forwardRouterAdvertisement os p data s
           else Some s
         })"

section \<open>The option rewrite against a reference\<close>

text \<open>
  The options of an advertisement (type, length in units of eight bytes, body) and what is left over
  behind the last complete one.
\<close>

definition nd_len :: "bytes \<Rightarrow> nat" where
  "nd_len d = (if length d < 2 then 0 else let n = unat (d ! 1) * 8 in if length d < n then 0 else n)"

function nd_opts :: "bytes \<Rightarrow> bytes list" where
  "nd_opts d = (if nd_len d = 0 then [] else take (nd_len d) d # nd_opts (drop (nd_len d) d))"
  by pat_completeness auto
termination
  by (relation "measure length") (auto simp: nd_len_def Let_def split: if_splits)

function nd_rest :: "bytes \<Rightarrow> bytes" where
  "nd_rest d = (if nd_len d = 0 then d else nd_rest (drop (nd_len d) d))"
  by pat_completeness auto
termination
  by (relation "measure length") (auto simp: nd_len_def Let_def split: if_splits)

declare nd_opts.simps [simp del] nd_rest.simps [simp del]

definition fix_slla :: "bytes \<Rightarrow> bytes \<Rightarrow> bytes" where
  "fix_slla mac opt = (if opt ! 0 = ndOptSourceLinkAddr then take 2 opt @ mac @ drop 8 opt else opt)"

definition nd_fixed :: "bytes \<Rightarrow> bytes \<Rightarrow> bytes" where
  "nd_fixed mac d = concat (map (fix_slla mac) (nd_opts d)) @ nd_rest d"

lemma nd_len_bounds: "nd_len d \<noteq> 0 \<Longrightarrow> 8 \<le> nd_len d \<and> nd_len d \<le> length d"
  by (auto simp: nd_len_def Let_def split: if_splits)

lemma nd_fixed_unfold:
  "nd_fixed mac d =
   (if nd_len d = 0 then d else fix_slla mac (take (nd_len d) d) @ nd_fixed mac (drop (nd_len d) d))"
  by (simp add: nd_fixed_def nd_opts.simps [of d] nd_rest.simps [of d])

lemma patch_slla:
  assumes "8 \<le> n" "opt + n \<le> length data" "data ! opt = ndOptSourceLinkAddr"
  shows "take opt data @ fix_slla mac (take n (drop opt data)) @ drop (opt + n) data =
    take (opt + 2) data @ mac @ drop (opt + 8) data"
proof -
  have "take n (drop opt data) ! 0 = ndOptSourceLinkAddr" using assms by simp
  moreover have "take opt data @ take 2 (drop opt data) = take (opt + 2) data" by (simp only: take_add)
  moreover have "drop 8 (take n (drop opt data)) @ drop (opt + n) data = drop (opt + 8) data"
  proof -
    have 1: "drop (opt + n) data = drop (n - 8) (drop (opt + 8) data)" using assms by (simp add: add.commute)
    have 2: "drop 8 (take n (drop opt data)) = take (n - 8) (drop (opt + 8) data)"
      by (simp add: drop_take add.commute)
    show ?thesis unfolding 1 2 by (rule append_take_drop_id)
  qed
  moreover have "take 2 (take n (drop opt data)) = take 2 (drop opt data)"
    using assms by (simp add: min_def)
  ultimately show ?thesis by (simp add: fix_slla_def)
qed

lemma fix_slla_length: "8 \<le> length opt \<Longrightarrow> length mac = 6 \<Longrightarrow> length (fix_slla mac opt) = length opt"
  by (auto simp: fix_slla_def)

lemma fixOptions_step:
  assumes "opt \<le> length data" "length mac = 6"
  defines "n \<equiv> nd_len (drop opt data)"
  shows "fixOptions data mac opt =
    (if n = 0 then Some data
     else fixOptions (take opt data @ fix_slla mac (take n (drop opt data)) @ drop (opt + n) data) mac (opt + n))"
proof (cases "opt + 2 \<le> length data")
  case False
  then show ?thesis
    by (simp add: fixOptions.simps [of data] n_def nd_len_def)
next
  case True
  then have nth: "drop opt data ! 0 = data ! opt" "drop opt data ! 1 = data ! (opt + 1)" by simp_all
  have n: "n = (if length data < opt + unat (data ! (opt + 1)) * 8 then 0 else unat (data ! (opt + 1)) * 8)"
    using True nth by (auto simp: n_def nd_len_def Let_def)
  show ?thesis
  proof (cases "n = 0")
    case n0: True
    with True n show ?thesis by (subst fixOptions.simps) (auto simp: Let_def split: if_splits)
  next
    case False
    then have len: "unat (data ! (opt + 1)) * 8 = n" "8 \<le> n" "opt + n \<le> length data"
      using n True nd_len_bounds [of "drop opt data"] by (auto simp: n_def split: if_splits)
    have t0: "take n (drop opt data) ! 0 = data ! opt" using len by simp
    show ?thesis
    proof (cases "data ! opt = ndOptSourceLinkAddr")
      case slla: True
      have m6: "min (n - 2) 6 = 6" using len by simp
      have c: "copy_into data (opt + 2) (opt + 2 + 6) mac = Some (take (opt + 2) data @ mac @ drop (opt + 8) data)"
        using len assms(2) by (simp add: copy_into_def add.commute)
      have "take opt data @ fix_slla mac (take n (drop opt data)) @ drop (opt + n) data =
          take (opt + 2) data @ mac @ drop (opt + 8) data"
        using len slla by (intro patch_slla) auto
      moreover have "fixOptions data mac opt =
          fixOptions (take (opt + 2) data @ mac @ drop (opt + 8) data) mac (opt + n)"
        using True len slla c assms(2) m6
        by (subst fixOptions.simps) (simp add: Let_def)
      ultimately show ?thesis using False by simp
    next
      case no: False
      have "take opt data @ take n (drop opt data) @ drop (opt + n) data = data"
        by (metis append_assoc append_take_drop_id take_add)
      with True len no False show ?thesis
        by (subst fixOptions.simps) (simp add: Let_def fix_slla_def t0)
    qed
  qed
qed

lemma fixOptions_ref:
  "opt \<le> length data \<Longrightarrow> length mac = 6 \<Longrightarrow>
   fixOptions data mac opt = Some (take opt data @ nd_fixed mac (drop opt data))"
proof (induction "length data - opt" arbitrary: data opt rule: less_induct)
  case less
  define n where "n = nd_len (drop opt data)"
  show ?case
  proof (cases "n = 0")
    case True
    then show ?thesis
      using fixOptions_step [OF less.prems] by (simp add: n_def nd_fixed_unfold)
  next
    case False
    then have n: "8 \<le> n" "opt + n \<le> length data"
      using nd_len_bounds [of "drop opt data"] less.prems(1) by (auto simp: n_def)
    let ?o = "fix_slla mac (take n (drop opt data))"
    let ?d = "take opt data @ ?o @ drop (opt + n) data"
    have o: "length ?o = n" using n less.prems by (simp add: fix_slla_length)
    then have d: "length ?d = length data" "take (opt + n) ?d = take opt data @ ?o"
      "drop (opt + n) ?d = drop (opt + n) data"
      using n by simp_all
    have "fixOptions data mac opt = fixOptions ?d mac (opt + n)"
      using fixOptions_step [OF less.prems] False by (simp add: n_def)
    also have "\<dots> = Some (take (opt + n) ?d @ nd_fixed mac (drop (opt + n) ?d))"
      using less.hyps [of ?d "opt + n"] less.prems n d by simp
    also have "\<dots> = Some (take opt data @ nd_fixed mac (drop opt data))"
      using False unfolding d nd_fixed_unfold [of mac "drop opt data"]
      by (simp add: n_def add.commute)
    finally show ?thesis .
  qed
qed

lemma length_nd_fixed: "length mac = 6 \<Longrightarrow> length (nd_fixed mac d) = length d"
proof (induction d rule: nd_opts.induct)
  case (1 d)
  then show ?case
    using nd_len_bounds [of d] by (subst nd_fixed_unfold) (auto simp: fix_slla_length)
qed

lemma fixSource_total:
  "length mac = 6 \<Longrightarrow> fixSourceLinkAddrOption data mac =
   Some (if length data < 16 then data else take 16 data @ nd_fixed mac (drop 16 data))"
  by (simp add: fixSourceLinkAddrOption_def fixOptions_ref)

text \<open>
  C21. \<^verbatim>\<open>fixSourceLinkAddrOption\<close> never reads or writes out of range, keeps the length of the packet and
  its 16-byte header, and rewrites the options one by one: every source link-layer address option
  keeps its type and length and gets the six bytes of the given MAC address, every other option and
  the bytes behind the last complete option stay as they are.
\<close>

theorem fixSourceLinkAddrOption_correct:
  assumes "length mac = 6" "16 \<le> length data"
  shows "\<exists>out. fixSourceLinkAddrOption data mac = Some out \<and> length out = length data \<and>
    take 16 out = take 16 data \<and>
    drop 16 out = concat (map (fix_slla mac) (nd_opts (drop 16 data))) @ nd_rest (drop 16 data)"
  using assms by (simp add: fixSource_total length_nd_fixed [OF assms(1)]) (simp add: nd_fixed_def)

theorem fixSourceLinkAddrOption_correct_witness:
  "fixSourceLinkAddrOption (134 # replicate 15 0 @ [5, 1, 0, 0, 0, 0, 5, 0xdc] @ [1, 1, 9, 9, 9, 9, 9, 9] @ [3])
     [2, 0, 0, 0, 0, 0x11] =
   Some (134 # replicate 15 0 @ [5, 1, 0, 0, 0, 0, 5, 0xdc] @ [1, 1, 2, 0, 0, 0, 0, 0x11] @ [3])"
proof -
  let ?o1 = "[5, 1, 0, 0, 0, 0, 5, 0xdc] :: bytes" and ?o2 = "[1, 1, 9, 9, 9, 9, 9, 9] :: bytes"
  let ?d = "134 # replicate 15 0 @ ?o1 @ ?o2 @ [3] :: bytes"
  have opts: "nd_opts (?o1 @ ?o2 @ [3]) = [?o1, ?o2]" "nd_rest (?o1 @ ?o2 @ [3]) = [3]"
    by (simp_all add: nd_opts.simps nd_rest.simps nd_len_def)
  have "take 16 ?d = 134 # replicate 15 0" "drop 16 ?d = ?o1 @ ?o2 @ [3]" "16 \<le> length ?d"
    by (simp_all add: numeral_eq_Suc)
  then obtain out where out: "fixSourceLinkAddrOption ?d [2, 0, 0, 0, 0, 0x11] = Some out"
      "take 16 out = 134 # replicate 15 0" "drop 16 out = ?o1 @ [1, 1, 2, 0, 0, 0, 0, 0x11] @ [3]"
    using fixSourceLinkAddrOption_correct [of "[2, 0, 0, 0, 0, 0x11]" ?d] opts
    by (auto simp: fix_slla_def)
  have "out = take 16 out @ drop 16 out" by simp
  then show ?thesis unfolding out by simp
qed

section \<open>Frames\<close>

context quiet_obs
begin

lemma obs_sendICMP6 [simp]: "obs (snd (sendICMP6 os p d i b s)) = obs s"
  by (simp add: sendICMP6_def split: option.split)

lemma obs_sendRouterSolicitation [simp]: "obs (snd (sendRouterSolicitation os p s)) = obs s"
  by (simp add: sendRouterSolicitation_def case_prod_beta)

lemma obs_solicit_on [simp]: "obs (solicit_on os i c s) = obs s"
  by (simp add: solicit_on_def)

lemma obs_forwardRouterSolicitation [simp]: "obs (forwardRouterSolicitation os p s) = obs s"
  by (simp add: forwardRouterSolicitation_def case_prod_beta fold_frame [where obs = obs])

end

section \<open>Relaying\<close>

text \<open>
  C26. The ICMPv6 filter of the router socket is computed without an out-of-range access and passes
  Router Solicitations (133) and Router Advertisements (134), and no other ICMPv6 type.
\<close>

theorem router_filter_exact:
  "\<exists>f. router_filter = Some f \<and> length f = 8 \<and>
     (\<forall>t < 256. filter_passes f t \<longleftrightarrow> t = ndRouterSolicit \<or> t = ndRouterAdvert)"
proof -
  obtain g where g: "icmp6FilterSetPass icmp6FilterBlockAll ndRouterAdvert = Some g" "length g = 8"
    using icmp6FilterSetPass_total [of icmp6FilterBlockAll ndRouterAdvert] icmp6FilterSetPass_length
    by (fastforce simp: icmp6FilterBlockAll_def)
  obtain f where f: "icmp6FilterSetPass g ndRouterSolicit = Some f" "length f = 8"
    using icmp6FilterSetPass_total [of g ndRouterSolicit] icmp6FilterSetPass_length g by fastforce
  have "filter_passes f t \<longleftrightarrow> t = ndRouterSolicit \<or> t = ndRouterAdvert" if "t < 256" for t
    using icmp6FilterSetPass_passes [OF f(1) g(2) that] icmp6FilterSetPass_passes [OF g(1) _ that]
      blockAll_blocks [OF that] by (simp add: icmp6FilterBlockAll_def)
  then show ?thesis using f g by (auto simp: router_filter_def)
qed

theorem router_filter_exact_witness:
  "\<exists>f. router_filter = Some f \<and> filter_passes f 134 \<and> \<not> filter_passes f 135"
proof -
  obtain f where f: "router_filter = Some f"
    "\<forall>t < 256. filter_passes f t \<longleftrightarrow> t = ndRouterSolicit \<or> t = ndRouterAdvert"
    using router_filter_exact by blast
  show ?thesis using f by (intro exI [of _ f]) simp
qed

text \<open>The packet a downstream interface sends, with its MAC address as the system answers at time \<open>n\<close>.\<close>

definition ra_copy :: "os \<Rightarrow> nat \<Rightarrow> bytes \<Rightarrow> Interface \<Rightarrow> bytes" where
  "ra_copy os n data i =
     (case os_HardwareAddr os n (Ifname i) of
        Inl _ \<Rightarrow> data
      | Inr hw \<Rightarrow> if length hw < 6 \<or> length data < 16 then data
                 else take 16 data @ nd_fixed (take 6 hw) (drop 16 data))"

definition ra_call :: "os \<Rightarrow> bytes \<Rightarrow> Interface \<Rightarrow> nat \<Rightarrow> call list" where
  "ra_call os data i n =
     (case router i of
        None \<Rightarrow> []
      | Some r \<Rightarrow> [Sendmsg (rs_fd r) (ra_copy os n data i) (cmsgPktinfo (Ifindex i) ZeroAddr)
                     (sockaddrIn6 allIPv6Nodes IPPROTO_ICMPV6 (Ifindex i))])"

definition ra_target :: "int \<Rightarrow> Interface \<Rightarrow> bool" where
  "ra_target own i = (Ifindex i \<noteq> own \<and> \<not> Master i \<and> RA i = ModeRelay)"

lemma advertise_on_Some:
  "\<exists>s' ns. advertise_on os own data c s = Some s' \<and> heap s' = heap s \<and> interfaces s' = interfaces s \<and>
     length ns = length (filter (ra_target own) [heap s c]) \<and>
     calls (trace s') = calls (trace s) @
       concat (map2 (ra_call os data) (filter (ra_target own) [heap s c]) ns)"
proof (cases "ra_target own (heap s c)")
  case False
  then show ?thesis by (auto simp: advertise_on_def ra_target_def)
next
  case True
  have 6: "hwAddrBytes6 hw = take 6 hw" if "\<not> length hw < 6" for hw
    using that by (simp add: hwAddrBytes6_def)
  have out: "(case fst (getMAC os c s) of Inl _ \<Rightarrow> Some data
      | Inr hw \<Rightarrow> fixSourceLinkAddrOption data (hwAddrBytes6 hw)) = Some (ra_copy os (clk s) data (heap s c))"
    by (simp add: getMAC_def ra_copy_def fixSource_total 6 split: sum.split)
  show ?thesis
    using True
    by (intro exI [of _ "snd (sendICMP6 os c allIPv6Nodes (Ifindex (heap s c))
            (ra_copy os (clk s) data (heap s c)) (snd (getMAC os c s)))"] exI [of _ "[clk s]"])
      (simp add: advertise_on_def case_prod_beta out ra_target_def ra_call_def sendICMP6_def
        split: option.split)
qed

lemma advertise_all:
  "\<exists>s' ns. fold_opt (advertise_on os own data) cs s = Some s' \<and> heap s' = heap s \<and>
     length ns = length (filter (ra_target own) (map (heap s) cs)) \<and>
     calls (trace s') = calls (trace s) @
       concat (map2 (ra_call os data) (filter (ra_target own) (map (heap s) cs)) ns)"
proof (induction cs arbitrary: s)
  case (Cons c cs)
  obtain s1 n1 where 1: "advertise_on os own data c s = Some s1" "heap s1 = heap s"
    "length n1 = length (filter (ra_target own) [heap s c])"
    "calls (trace s1) = calls (trace s) @ concat (map2 (ra_call os data) (filter (ra_target own) [heap s c]) n1)"
    using advertise_on_Some [of os own data c s] by blast
  obtain s2 n2 where 2: "fold_opt (advertise_on os own data) cs s1 = Some s2" "heap s2 = heap s1"
    "length n2 = length (filter (ra_target own) (map (heap s1) cs))"
    "calls (trace s2) = calls (trace s1) @
       concat (map2 (ra_call os data) (filter (ra_target own) (map (heap s1) cs)) n2)"
    using Cons.IH [of s1] by blast
  have "filter (ra_target own) (map (heap s) (c # cs)) =
      filter (ra_target own) [heap s c] @ filter (ra_target own) (map (heap s) cs)" by simp
  then show ?case
    using 1 2 by (intro exI [of _ s2] exI [of _ "n1 @ n2"]) (simp add: zip_append)
qed simp

text \<open>
  C7. \<^verbatim>\<open>forwardRouterAdvertisement\<close> never panics and sends the advertisement exactly once on every
  other downstream interface that relays RA and has an open socket, and nowhere else: to the
  all-nodes group, with the source link-layer address options carrying the MAC address of the sending
  interface (and unchanged if it has none). Each copy starts from the packet as it was received.
\<close>

theorem forwardRouterAdvertisement_correct:
  "\<exists>s' cs ns. forwardRouterAdvertisement os p data s = Some s' \<and> heap s' = heap s \<and>
     mset cs = mset (map snd (interfaces s)) \<and>
     length ns = length (filter (ra_target (Ifindex (heap s p))) (map (heap s) cs)) \<and>
     calls (trace s') = calls (trace s) @
       concat (map2 (ra_call os data) (filter (ra_target (Ifindex (heap s p))) (map (heap s) cs)) ns)"
proof -
  obtain s' ns where "fold_opt (advertise_on os (Ifindex (heap s p)) data) (fst (range_interfaces os s))
        (snd (range_interfaces os s)) = Some s'" "heap s' = heap s"
    "length ns = length (filter (ra_target (Ifindex (heap s p))) (map (heap s) (fst (range_interfaces os s))))"
    "calls (trace s') = calls (trace s) @ concat (map2 (ra_call os data)
       (filter (ra_target (Ifindex (heap s p))) (map (heap s) (fst (range_interfaces os s)))) ns)"
    using advertise_all [of os "Ifindex (heap s p)" data "fst (range_interfaces os s)" "snd (range_interfaces os s)"]
    by auto
  then show ?thesis
    by (intro exI [of _ s'] exI [of _ "fst (range_interfaces os s)"] exI [of _ ns])
      (simp add: forwardRouterAdvertisement_def case_prod_beta)
qed

section \<open>The solicitation timer\<close>

lemma arm_rsTimer_simps [simp]:
  "heap (arm_rsTimer ms p gen s) = (heap s)(p := heap s p\<lparr>rsTimer := Some (nextTimer s)\<rparr>)"
  "timers (arm_rsTimer ms p gen s) = timers s @ [(nextTimer s, ms, SolicitTimer p gen)]"
  "nextTimer (arm_rsTimer ms p gen s) = Suc (nextTimer s)"
  "trace (arm_rsTimer ms p gen s) = trace s" "interfaces (arm_rsTimer ms p gen s) = interfaces s"
  "clk (arm_rsTimer ms p gen s) = clk s"
  "mirroredNeighs (arm_rsTimer ms p gen s) = mirroredNeighs s"
  "closedChans (arm_rsTimer ms p gen s) = closedChans s"
  "panicked (arm_rsTimer ms p gen s) = panicked s" "nextChan (arm_rsTimer ms p gen s) = nextChan s"
  "nextPtr (arm_rsTimer ms p gen s) = nextPtr s" "readers (arm_rsTimer ms p gen s) = readers s"
  "reconcileScheduled (arm_rsTimer ms p gen s) = reconcileScheduled s"
  by (simp_all add: arm_rsTimer_def AfterFunc_def upd_def)

text \<open>The Router Solicitation an interface sends, with the MAC address as answered at time \<open>n\<close>.\<close>

definition rs_call :: "os \<Rightarrow> nat \<Rightarrow> Interface \<Rightarrow> call list" where
  "rs_call os n i =
     (case router i of
        None \<Rightarrow> []
      | Some r \<Rightarrow>
          [Sendmsg (rs_fd r)
             (rs_packet (case os_HardwareAddr os n (Ifname i) of Inl e \<Rightarrow> Inl e
                         | Inr hw \<Rightarrow> if length hw < 6 then Inl (OtherErr 0) else Inr hw))
             (cmsgPktinfo (Ifindex i) ZeroAddr) (sockaddrIn6 allIPv6Routers IPPROTO_ICMPV6 (Ifindex i))])"

lemma rs_call_cong [simp]:
  "rs_call os n (i\<lparr>cachedLL := a, cachedLLValid := v\<rparr>) = rs_call os n i"
  "rs_call os n (i\<lparr>raSent := k\<rparr>) = rs_call os n i" "rs_call os n (i\<lparr>rsTimer := t\<rparr>) = rs_call os n i"
  by (simp_all add: rs_call_def split: option.split)

lemma calls_sendRouterSolicitation [simp]:
  "calls (trace (snd (sendRouterSolicitation os p s))) = calls (trace s) @ rs_call os (clk s) (heap s p)"
  by (auto simp: sendRouterSolicitation_def rs_call_def case_prod_beta sendICMP6_def getMAC_def
      split: option.split)

definition soliciting :: "Interface \<Rightarrow> int \<Rightarrow> bool" where
  "soliciting i gen = (rsTimerN i = gen \<and> router i \<noteq> None \<and> Master i \<and> RA i = ModeRelay)"

text \<open>
  What a firing leaves behind: the count of the interface is \<open>n\<close> and, if it is to be tried again, a new
  timer of the same generation is armed; no other interface changes, and of this one nothing else but
  its link-local cache.
\<close>

definition solicit_after :: "st \<Rightarrow> ptr \<Rightarrow> int \<Rightarrow> int \<Rightarrow> bool \<Rightarrow> st \<Rightarrow> bool" where
  "solicit_after s p gen n again t =
     (core (heap t p) = core (heap s p\<lparr>raSent := n,
        rsTimer := (if again then Some (nextTimer s) else rsTimer (heap s p))\<rparr>) \<and>
      (\<forall>q. q = p \<or> heap t q = heap s q) \<and>
      timers t = timers s @
        (if again then [(nextTimer s, rtrSolicitationInterval, SolicitTimer p gen)] else []))"

lemma trace_sendRouterSolicitation:
  assumes "router (heap s p) = Some r"
  shows "\<exists>c e. rs_call os (clk s) (heap s p) = [c] \<and>
    trace (snd (sendRouterSolicitation os p s)) = trace s @ [Did c e] \<and>
    fst (sendRouterSolicitation os p s) = (e = None)"
  using assms
  by (auto simp: sendRouterSolicitation_def rs_call_def case_prod_beta sendICMP6_def getMAC_def)

lemma solicitTimerFire_spec:
  fixes os :: os and p :: ptr and gen :: int and s :: st
  defines "s' \<equiv> solicitTimerFire os p gen s" and "i \<equiv> heap s p"
  shows "if \<not> soliciting i gen then s' = s
    else case fst (getLinkLocalAddr p s) of
        None \<Rightarrow> trace s' = trace s \<and> solicit_after s p gen (raSent i) True s'
      | Some _ \<Rightarrow> \<exists>c r. rs_call os (clk s) i = [c] \<and> trace s' = trace s @ [Did c r] \<and>
          solicit_after s p gen (if r = None then raSent i + 1 else raSent i)
            (r \<noteq> None \<or> raSent i + 1 < maxRtrSolicitations) s'"
proof (cases "soliciting i gen")
  case False
  then show ?thesis by (auto simp: s'_def i_def solicitTimerFire_def soliciting_def)
next
  case True
  obtain a v where g: "snd (getLinkLocalAddr p s) = upd p (\<lambda>i. i\<lparr>cachedLL := a, cachedLLValid := v\<rparr>) s"
    using getLinkLocalAddr_upd by blast
  let ?g = "snd (getLinkLocalAddr p s)"
  have eq: "s' = (case fst (getLinkLocalAddr p s) of
        None \<Rightarrow> arm_rsTimer rtrSolicitationInterval p gen ?g
      | Some _ \<Rightarrow> (let r = sendRouterSolicitation os p ?g; t = upd p (\<lambda>i. i\<lparr>raSent := raSent i + 1\<rparr>) (snd r)
          in if \<not> fst r then arm_rsTimer rtrSolicitationInterval p gen (snd r)
             else if raSent (heap t p) < maxRtrSolicitations then arm_rsTimer rtrSolicitationInterval p gen t
             else t))"
    using True unfolding s'_def i_def soliciting_def solicitTimerFire_def Let_def
    by (auto simp: case_prod_beta split: option.split bool.split)
  show ?thesis
  proof (cases "fst (getLinkLocalAddr p s)")
    case None
    with True g show ?thesis
      by (simp add: eq soliciting_def i_def solicit_after_def core_def)
  next
    case (Some ll)
    obtain r where "router (heap ?g p) = Some r" using True g by (auto simp: soliciting_def i_def)
    from trace_sendRouterSolicitation [OF this, of os] obtain c e where
      c: "rs_call os (clk s) i = [c]" and t: "trace (snd (sendRouterSolicitation os p ?g)) = trace s @ [Did c e]"
      and e: "fst (sendRouterSolicitation os p ?g) = (e = None)"
      using g by (auto simp: i_def)
    have "trace s' = trace s @ [Did c e] \<and> solicit_after s p gen (if e = None then raSent i + 1 else raSent i)
        (e \<noteq> None \<or> raSent i + 1 < maxRtrSolicitations) s'"
      using g Some t e by (simp add: eq solicit_after_def i_def core_def Let_def)
    with True Some c show ?thesis by auto
  qed
qed

text \<open>
  C23. One firing of the solicitation timer, on every branch. A timer of an older generation, or of an
  interface that is no longer a soliciting upstream one, changes nothing. Otherwise, without a usable
  link-local address no call is made; with one, exactly one is, the Router Solicitation on the
  interface's own socket, and it is counted if and only if that call succeeded. The timer is armed
  again, for the same generation, unless the send succeeded and brought the count to three. Nothing
  else of the interface changes but its link-local cache, and nothing of any other interface.
\<close>

theorem solicitTimerFire_correct:
  fixes os :: os and p :: ptr and gen :: int and s :: st
  defines "s' \<equiv> solicitTimerFire os p gen s" and "i \<equiv> heap s p"
  shows "if \<not> soliciting i gen then s' = s
    else case fst (getLinkLocalAddr p s) of
        None \<Rightarrow> trace s' = trace s \<and> solicit_after s p gen (raSent i) True s'
      | Some _ \<Rightarrow> \<exists>c r. rs_call os (clk s) i = [c] \<and> trace s' = trace s @ [Did c r] \<and>
          solicit_after s p gen (if r = None then raSent i + 1 else raSent i)
            (r \<noteq> None \<or> raSent i + 1 < maxRtrSolicitations) s'"
  unfolding s'_def i_def by (rule solicitTimerFire_spec)

text \<open>C23 at the upstream interface of the example, whose link-local address is not assigned yet: the timer is
  armed again and no attempt is used up.\<close>

theorem solicitTimerFire_correct_witness:
  "soliciting (heap demo_st 0) 0 \<and>
   timers (solicitTimerFire demo_os 0 0 demo_st) = [(0, 4000, SolicitTimer 0 0)] \<and>
   raSent (heap (solicitTimerFire demo_os 0 0 demo_st) 0) = 0"
proof -
  have "soliciting (heap demo_st 0) 0" "fst (getLinkLocalAddr 0 demo_st) = None"
    "raSent (heap demo_st 0) = 0" "timers demo_st = []" "nextTimer demo_st = 0"
    by (simp_all add: soliciting_def getLinkLocalAddr_def demo_st_def demo_defs)
  then show ?thesis
    using solicitTimerFire_correct [where os = demo_os and p = 0 and gen = 0 and s = demo_st]
    by (auto simp: solicit_after_def dest: coreD)
qed

lemma getLinkLocalAddr_Some:
  "fst (getLinkLocalAddr p s) = Some ll \<Longrightarrow>
   getLinkLocalAddr p s = (Some ll, upd p (\<lambda>i. i\<lparr>cachedLL := ll, cachedLLValid := True\<rparr>) s)"
proof (cases "cachedLLValid (heap s p)")
  case True
  moreover assume "fst (getLinkLocalAddr p s) = Some ll"
  ultimately have e: "heap s p\<lparr>cachedLL := ll, cachedLLValid := True\<rparr> = heap s p"
    by (cases "heap s p") (simp add: getLinkLocalAddr_def)
  have "upd p (\<lambda>i. i\<lparr>cachedLL := ll, cachedLLValid := True\<rparr>) s = s" unfolding upd_def e by simp
  with True \<open>fst _ = _\<close> show ?thesis by (simp add: getLinkLocalAddr_def)
qed (auto simp: getLinkLocalAddr_def split: option.splits)

lemma getLinkLocalAddr_cached:
  "cachedLLValid (heap s p) \<Longrightarrow> fst (getLinkLocalAddr p s) = Some (cachedLL (heap s p))"
  by (simp add: getLinkLocalAddr_def)

lemma solicit_success:
  assumes "soliciting (heap s p) gen" "fst (getLinkLocalAddr p s) = Some ll" "accepted os"
  shows "let s' = solicitTimerFire os p gen s in
    soliciting (heap s' p) gen \<and> fst (getLinkLocalAddr p s') = Some ll \<and>
    raSent (heap s' p) = raSent (heap s p) + 1 \<and>
    calls (trace s') = calls (trace s) @ rs_call os (clk s) (heap s p) \<and>
    timers s' = timers s @ (if raSent (heap s p) + 1 < maxRtrSolicitations
      then [(nextTimer s, rtrSolicitationInterval, SolicitTimer p gen)] else []) \<and>
    (\<forall>n. rs_call os n (heap s' p) = rs_call os n (heap s p))"
proof -
  define s1 where "s1 = upd p (\<lambda>i. i\<lparr>cachedLL := ll, cachedLLValid := True\<rparr>) s"
  have ll: "getLinkLocalAddr p s = (Some ll, s1)"
    using assms(2) by (simp add: getLinkLocalAddr_Some s1_def)
  obtain r where r: "router (heap s1 p) = Some r" using assms by (auto simp: soliciting_def s1_def)
  have ok: "fst (sendRouterSolicitation os p s1)"
    using assms(3) r
    by (simp add: sendRouterSolicitation_def sendICMP6_def sendICMP6FD_def Let_def case_prod_beta accepted_def)
  define t where "t = snd (sendRouterSolicitation os p s1)"
  have t: "sendRouterSolicitation os p s1 = (True, t)" "heap t = heap s1" "timers t = timers s1"
    "nextTimer t = nextTimer s1" "calls (trace t) = calls (trace s) @ rs_call os (clk s) (heap s p)"
    using ok by (simp_all add: prod_eq_iff t_def s1_def)
  define u where "u = upd p (\<lambda>i. i\<lparr>raSent := raSent i + 1\<rparr>) t"
  have eq: "solicitTimerFire os p gen s =
      (if raSent (heap u p) < maxRtrSolicitations then arm_rsTimer rtrSolicitationInterval p gen u else u)"
    using assms(1) t by (auto simp: solicitTimerFire_def soliciting_def ll u_def)
  show ?thesis
    using assms(1) t unfolding eq
    by (simp add: u_def s1_def soliciting_def getLinkLocalAddr_cached)
qed

text \<open>
  C22. The solicitation burst ends: once a usable link-local address is there and the sends succeed,
  three firings of the timer send exactly three Router Solicitations, and the third one does not arm
  the timer again; the count never passes three.
\<close>

theorem solicit_burst:
  fixes os :: os and p :: ptr and gen :: int and s :: st
  defines "fire \<equiv> solicitTimerFire os p gen"
  assumes "soliciting (heap s p) gen" "fst (getLinkLocalAddr p s) \<noteq> None" "raSent (heap s p) = 0"
    and "accepted os"
  shows "raSent (heap (fire (fire (fire s))) p) = maxRtrSolicitations \<and>
    (\<exists>n1 n2 n3. calls (trace (fire (fire (fire s)))) =
       calls (trace s) @ rs_call os n1 (heap s p) @ rs_call os n2 (heap s p) @ rs_call os n3 (heap s p)) \<and>
    length (timers (fire (fire s))) = length (timers s) + 2 \<and>
    timers (fire (fire (fire s))) = timers (fire (fire s))"
proof -
  obtain ll where ll: "fst (getLinkLocalAddr p s) = Some ll" using assms by auto
  note 1 = solicit_success [OF assms(2) ll assms(5), unfolded Let_def, folded fire_def]
  note 2 = solicit_success [OF 1 [THEN conjunct1] 1 [THEN conjunct2, THEN conjunct1] assms(5),
      unfolded Let_def, folded fire_def]
  note 3 = solicit_success [OF 2 [THEN conjunct1] 2 [THEN conjunct2, THEN conjunct1] assms(5),
      unfolded Let_def, folded fire_def]
  show ?thesis using 1 2 3 assms(4) by auto
qed

text \<open>The upstream interface of the example once its link-local address is assigned.\<close>

definition demo_ll :: addr where
  "demo_ll = V6 [0xfe, 0x80, 0, 0, 0, 0, 0, 0, 0, 0, 0, 0, 0, 0, 0, 1]"

definition demo_st_ll :: st where
  "demo_st_ll = upd 0 (\<lambda>i. i\<lparr>Addr6 := [\<lparr>Addr = demo_ll, PrefixLen = 64, PreferredLT = 0, ValidLT = 0,
     Tentative = False\<rparr>]\<rparr>) demo_st"

theorem solicit_burst_witness:
  "raSent (heap (solicitTimerFire demo_os 0 0 (solicitTimerFire demo_os 0 0
     (solicitTimerFire demo_os 0 0 demo_st_ll))) 0) = 3"
proof -
  have "soliciting (heap demo_st_ll 0) 0" "fst (getLinkLocalAddr 0 demo_st_ll) \<noteq> None"
    "raSent (heap demo_st_ll 0) = 0" "accepted demo_os"
    by (simp_all add: soliciting_def getLinkLocalAddr_def demo_st_ll_def demo_ll_def demo_defs
        isLinkLocalUnicast_def v4InV6Prefix_def accepted_def)
  then show ?thesis
    using solicit_burst [where os = demo_os and p = 0 and gen = 0 and s = demo_st_ll] by simp
qed

end
