(* ===== verification/Services.thy ===== *)
theory Services
  imports Ndp Dhcpv6 Router
begin

text \<open>
  The contract the three relay services share. Abstractly, the daemon owns a table of sockets, one per
  interface object and service, each with a fresh \<^verbatim>\<open>done\<close> channel; setting a service up closes the
  socket it had and may open a new one. \<^verbatim>\<open>routerSetup\<close>, \<^verbatim>\<open>dhcpv6Setup\<close> and \<^verbatim>\<open>ndpSetup\<close> implement
  this contract, so their clients never close a channel twice, which in Go would be a panic.
\<close>

datatype svc = RouterSvc | DhcpSvc | NdpSvc

section \<open>The abstract socket table\<close>

type_synonym sockkey = "ptr \<times> svc"

text \<open>A socket of the table: its \<^verbatim>\<open>done\<close> channel, its descriptors, the interface it points to.\<close>

type_synonym asock = "nat \<times> int list \<times> ptr"

record socktab =
  socks :: "sockkey \<Rightarrow> asock option"
  fresh :: nat
  closed :: "nat set"
  broken :: bool

definition a_close :: "sockkey \<Rightarrow> socktab \<Rightarrow> socktab" where
  "a_close x t =
     (case socks t x of
        None \<Rightarrow> t
      | Some k \<Rightarrow> t\<lparr>socks := (socks t)(x := None), closed := insert (fst k) (closed t),
                    broken := (broken t \<or> fst k \<in> closed t)\<rparr>)"

definition a_open :: "sockkey \<Rightarrow> int list \<Rightarrow> socktab \<Rightarrow> socktab" where
  "a_open x fds t = t\<lparr>socks := (socks t)(x \<mapsto> (fresh t, fds, fst x)), fresh := Suc (fresh t)\<rparr>"

text \<open>
  The invariant: no panic so far, every socket of the table belongs to its interface and has a channel
  that is allocated, open and not shared.
\<close>

definition a_inv :: "socktab \<Rightarrow> bool" where
  "a_inv t = (\<not> broken t \<and> (\<forall>c \<in> closed t. c < fresh t) \<and>
     (\<forall>x k. socks t x = Some k \<longrightarrow>
        snd (snd k) = fst x \<and> fst k < fresh t \<and> fst k \<notin> closed t \<and>
        (\<forall>y l. socks t y = Some l \<and> fst l = fst k \<longrightarrow> y = x)))"

lemma a_invD:
  assumes "a_inv t" "socks t x = Some k"
  shows "snd (snd k) = fst x" "fst k < fresh t" "fst k \<notin> closed t"
    "socks t y = Some l \<Longrightarrow> fst l = fst k \<Longrightarrow> y = x"
  using assms unfolding a_inv_def by blast+

lemma a_inv_close:
  assumes "a_inv t"
  shows "a_inv (a_close x t)"
proof (cases "socks t x")
  case None
  with assms show ?thesis by (simp add: a_close_def)
next
  case (Some k)
  have b: "\<not> broken t" "\<forall>c \<in> closed t. c < fresh t" using assms by (simp_all add: a_inv_def)
  show ?thesis
    unfolding a_inv_def a_close_def Some option.case
  proof (intro conjI allI impI ballI)
    fix y l assume "socks (t\<lparr>socks := (socks t)(x := None), closed := insert (fst k) (closed t),
        broken := broken t \<or> fst k \<in> closed t\<rparr>) y = Some l"
    then have y: "socks t y = Some l" "y \<noteq> x" by (auto split: if_splits)
    show "fst l \<notin> closed (t\<lparr>socks := (socks t)(x := None), closed := insert (fst k) (closed t),
        broken := broken t \<or> fst k \<in> closed t\<rparr>)"
      using a_invD(3) [OF assms y(1)] a_invD(4) [OF assms y(1) Some] y(2) by auto
  qed (use a_invD [OF assms] a_invD [OF assms Some] b in \<open>auto split: if_splits\<close>)
qed

lemma a_inv_open:
  assumes "a_inv t" "socks t x = None"
  shows "a_inv (a_open x fds t)"
proof -
  have b: "\<not> broken t" "\<And>c. c \<in> closed t \<Longrightarrow> c < fresh t" using assms by (auto simp: a_inv_def)
  have lt: "fst k < fresh t" if "socks t y = Some k" for y k
    using a_invD(2) [OF assms(1) that] .
  have nf: "fresh t \<notin> closed t" using b(2) [of "fresh t"] by blast
  show ?thesis
    unfolding a_inv_def a_open_def
  proof (intro conjI allI impI ballI)
    fix y l z m
    assume "socks (t\<lparr>socks := (socks t)(x \<mapsto> (fresh t, fds, fst x)), fresh := Suc (fresh t)\<rparr>) y = Some l"
      and "socks (t\<lparr>socks := (socks t)(x \<mapsto> (fresh t, fds, fst x)), fresh := Suc (fresh t)\<rparr>) z = Some m
        \<and> fst m = fst l"
    then show "z = y"
      using a_invD(4) [OF assms(1), of y l z m] lt [of y l] lt [of z m] by (auto split: if_splits)
  qed (use b lt nf a_invD [OF assms(1)] in \<open>auto split: if_splits simp: less_Suc_eq\<close>)
qed

lemma a_close_None [simp]: "socks (a_close x t) x = None"
  by (simp add: a_close_def split: option.split)

lemma a_close_other [simp]: "y \<noteq> x \<Longrightarrow> socks (a_close x t) y = socks t y"
  by (simp add: a_close_def split: option.split)

lemma a_open_socks [simp]:
  "socks (a_open x fds t) = (socks t)(x \<mapsto> (fresh t, fds, fst x))"
  by (simp add: a_open_def)

lemma a_close_idem [simp]: "a_close x (a_close x t) = a_close x t"
  by (simp add: a_close_def split: option.split)

section \<open>Its concretisation\<close>

fun sock_of :: "svc \<Rightarrow> Interface \<Rightarrow> asock option" where
  "sock_of RouterSvc i = map_option (\<lambda>r. (rs_done r, [rs_fd r], rs_iface r)) (router i)"
| "sock_of DhcpSvc i = map_option (\<lambda>d. (ds_done d, [ds_fd d], ds_iface d)) (dhcp i)"
| "sock_of NdpSvc i = map_option (\<lambda>n. (ns_done n, [ns_fd n, ns_pingFd n], ns_iface n)) (ndp i)"

definition socket_table :: "st \<Rightarrow> socktab" where
  "socket_table s = \<lparr>socks = (\<lambda>(p, k). sock_of k (heap s p)), fresh = nextChan s,
     closed = set (closedChans s), broken = panicked s\<rparr>"

text \<open>What a service leaves alone: the configuration of every interface.\<close>

definition config_of :: "Interface \<Rightarrow> Interface" where
  "config_of i = i\<lparr>router := None, dhcp := None, ndp := None,
     raSent := 0, rsTimer := None, rsTimerN := 0\<rparr>"

lemma config_ofD:
  assumes "config_of i = config_of j"
  shows "Name i = Name j" "Ifname i = Ifname j" "Ifindex i = Ifindex j" "Running i = Running j"
    "Master i = Master j" "LearnRoutes i = LearnRoutes j" "NdpFromLinkLocal i = NdpFromLinkLocal j"
    "Inuse i = Inuse j" "Addr6 i = Addr6 j" "HaveLinkLocal i = HaveLinkLocal j" "RA i = RA j"
    "DHCPv6 i = DHCPv6 j" "NDP i = NDP j" "cachedLL i = cachedLL j" "cachedLLValid i = cachedLLValid j"
  using assms by (cases i; cases j; simp add: config_of_def)+

section \<open>The interface of a service\<close>

text \<open>
  A service is a setup operation, its row in the table and the configured mode it obeys. Switching it
  off closes its socket; switching it on replaces the socket or, if the mode or the outside world does
  not allow it, leaves none; a world that refuses nothing gives it one.
\<close>

definition willing :: "os \<Rightarrow> bool" where
  "willing os = (accepted os \<and> (\<forall>n k. \<exists>fd. os_socket os n k = Inr fd))"

locale service =
  fixes conf :: "os \<Rightarrow> ptr \<Rightarrow> bool \<Rightarrow> st \<Rightarrow> errno option \<times> st"
    and kind :: svc
    and mode :: "Interface \<Rightarrow> Mode"
  assumes conf_off: "socket_table (snd (conf os p False s)) = a_close (p, kind) (socket_table s)"
    and conf_on: "socket_table (snd (conf os p True s)) = a_close (p, kind) (socket_table s) \<or>
      (\<exists>fds. socket_table (snd (conf os p True s)) = a_open (p, kind) fds (a_close (p, kind) (socket_table s)))"
    and conf_disabled: "mode (heap s p) = ModeDisabled \<Longrightarrow>
      socket_table (snd (conf os p True s)) = a_close (p, kind) (socket_table s)"
    and conf_up: "willing os \<Longrightarrow> mode (heap s p) \<noteq> ModeDisabled \<Longrightarrow>
      socks (socket_table (snd (conf os p True s))) (p, kind) \<noteq> None"
    and conf_mode: "config_of i = config_of j \<Longrightarrow> mode i = mode j"
    and conf_config: "config_of (heap (snd (conf os p e s)) q) = config_of (heap s q)"
    and conf_interfaces: "interfaces (snd (conf os p e s)) = interfaces s"
    and conf_nextPtr: "nextPtr (snd (conf os p e s)) = nextPtr s"
begin

lemma conf_inv: "a_inv (socket_table s) \<Longrightarrow> a_inv (socket_table (snd (conf os p e s)))"
  using conf_off [of os p s] conf_on [of os p s]
  by (cases e) (auto simp: a_inv_close a_inv_open)

lemma conf_off_closed: "socks (socket_table (snd (conf os p False s))) (p, kind) = None"
  by (simp add: conf_off)

lemma conf_other: "x \<noteq> (p, kind) \<Longrightarrow>
  socks (socket_table (snd (conf os p e s))) x = socks (socket_table s) x"
  using conf_off [of os p s] conf_on [of os p s] by (cases e) auto

lemma conf_only_if:
  "socks (socket_table (snd (conf os p e s))) (p, kind) \<noteq> None \<Longrightarrow> e \<and> mode (heap s p) \<noteq> ModeDisabled"
  using conf_off [of os p s] conf_disabled [of s p os] by (cases e) auto

lemma conf_mode_same: "mode (heap (snd (conf os p e s)) q) = mode (heap s q)"
  by (rule conf_mode) (rule conf_config)

lemma conf_off_twice:
  "socket_table (snd (conf os p False (snd (conf os p False s)))) =
   socket_table (snd (conf os p False s))"
  by (simp add: conf_off)

lemmas conf_fields [simp] = config_ofD [OF conf_config] conf_interfaces conf_nextPtr

end

section \<open>The three services implement it\<close>

interpretation socket_table_mobs: mirror_obs socket_table
  by unfold_locales (simp_all add: socket_table_def)

lemma socket_table_cache [simp]:
  "socket_table (upd p (\<lambda>i. i\<lparr>cachedLL := a, cachedLLValid := v\<rparr>) s) = socket_table s"
proof -
  have "sock_of k (i\<lparr>cachedLL := a, cachedLLValid := v\<rparr>) = sock_of k i" for k i by (cases k) simp_all
  then show ?thesis by (auto simp: socket_table_def fun_eq_iff)
qed

interpretation socket_table_cobs: cache_obs socket_table
  by unfold_locales simp

context quiet_obs
begin

lemma obs_drainSocket [simp]: "obs (drainSocket os fd s) = obs s"
proof -
  have "obs (drain_n os fd n t) = obs t" for n t by (induction n arbitrary: t) (simp_all add: case_prod_beta)
  then show ?thesis by (simp add: drainSocket_def)
qed

end

text \<open>A change of an interface object that touches no socket.\<close>

lemma socket_table_upd_same:
  "(\<And>k i. sock_of k (f i) = sock_of k i) \<Longrightarrow> socket_table (upd p f s) = socket_table s"
  by (auto simp: socket_table_def fun_eq_iff)

lemma socket_table_timers [simp]:
  "socket_table (s\<lparr>timers := l, nextTimer := n\<rparr>) = socket_table s"
  "socket_table (s\<lparr>timers := l\<rparr>) = socket_table s" "socket_table (s\<lparr>interfaces := is\<rparr>) = socket_table s"
  "socket_table (s\<lparr>reconcileScheduled := b\<rparr>) = socket_table s"
  by (simp_all add: socket_table_def)

lemma sock_of_rs [simp]:
  "sock_of k (i\<lparr>rsTimer := t\<rparr>) = sock_of k i" "sock_of k (i\<lparr>rsTimerN := n\<rparr>) = sock_of k i"
  "sock_of k (i\<lparr>raSent := n\<rparr>) = sock_of k i"
  by (cases k; simp)+

lemma socket_table_stop_rsTimer [simp]: "socket_table (stop_rsTimer p s) = socket_table s"
  by (simp add: stop_rsTimer_def timer_Stop_def socket_table_upd_same split: option.split)

lemma socket_table_arm_rsTimer [simp]: "socket_table (arm_rsTimer ms p gen s) = socket_table s"
  by (simp add: arm_rsTimer_def AfterFunc_def socket_table_upd_same)

lemma socket_table_close:
  assumes "sock_of k (heap s p) = Some (c, fds, q)"
    and "\<And>i. sock_of k (f i) = None" "\<And>l i. l \<noteq> k \<Longrightarrow> sock_of l (f i) = sock_of l i"
  shows "socket_table (upd p f (close_chan c s)) = a_close (p, k) (socket_table s)"
proof -
  have h: "heap (close_chan c s) = heap s" "nextChan (close_chan c s) = nextChan s"
    "panicked (close_chan c s) = (panicked s \<or> c \<in> set (closedChans s))"
    "set (closedChans (close_chan c s)) = insert c (set (closedChans s))"
    by (auto simp: close_chan_def)
  have "(\<lambda>(q, l). sock_of l (((heap s)(p := f (heap s p))) q)) =
      (\<lambda>(q, l). sock_of l (heap s q))((p, k) := None)"
    using assms(2, 3) by (auto simp: fun_eq_iff)
  then show ?thesis
    using assms(1) by (simp add: socket_table_def a_close_def h)
qed

lemma sock_of_other:
  "l \<noteq> RouterSvc \<Longrightarrow> sock_of l (i\<lparr>router := r\<rparr>) = sock_of l i"
  "l \<noteq> DhcpSvc \<Longrightarrow> sock_of l (i\<lparr>dhcp := d\<rparr>) = sock_of l i"
  "l \<noteq> NdpSvc \<Longrightarrow> sock_of l (i\<lparr>ndp := n\<rparr>) = sock_of l i"
  by (cases l; simp)+

lemma socket_table_open:
  assumes "n = nextChan s"
  shows "socket_table (go r (upd p (\<lambda>i. i\<lparr>router := Some \<lparr>rs_fd = fd, rs_iface = p, rs_done = n\<rparr>, raSent := m\<rparr>)
      (s\<lparr>nextChan := Suc n\<rparr>))) = a_open (p, RouterSvc) [fd] (socket_table s)" (is ?R)
    and "socket_table (go r (upd p (\<lambda>i. i\<lparr>dhcp := Some \<lparr>ds_fd = fd, ds_iface = p, ds_done = n\<rparr>\<rparr>)
      (s\<lparr>nextChan := Suc n\<rparr>))) = a_open (p, DhcpSvc) [fd] (socket_table s)" (is ?D)
    and "socket_table (go r (upd p (\<lambda>i. i\<lparr>ndp := Some \<lparr>ns_fd = fd, ns_pingFd = fd', ns_iface = p, ns_done = n\<rparr>\<rparr>)
      (s\<lparr>nextChan := Suc n\<rparr>))) = a_open (p, NdpSvc) [fd, fd'] (socket_table s)" (is ?N)
proof -
  have e: "socket_table (go r (upd p f (s\<lparr>nextChan := Suc n\<rparr>))) = a_open (p, k) fds (socket_table s)"
    if "\<And>i. sock_of k (f i) = Some (n, fds, p)" "\<And>l i. l \<noteq> k \<Longrightarrow> sock_of l (f i) = sock_of l i" for f k fds
    using that assms by (auto simp: socket_table_def a_open_def go_def fun_eq_iff)
  show ?R ?D ?N by (rule e; simp add: sock_of_other)+
qed

lemma socket_table_closeFD_upd [simp]:
  "socket_table (upd p f (closeFD os fd s)) = socket_table (upd p f s)"
  by (simp add: socket_table_def)

lemma router_teardown_table:
  "socket_table (router_teardown os p s) = a_close (p, RouterSvc) (socket_table s)"
proof (cases "router (heap s p)")
  case None
  then show ?thesis by (simp add: router_teardown_def a_close_def socket_table_def)
next
  case (Some r)
  then show ?thesis
    by (simp add: router_teardown_def socket_table_close [where k = RouterSvc] sock_of_other)
qed

lemma dhcp_teardown_table:
  "socket_table (dhcp_teardown os p s) = a_close (p, DhcpSvc) (socket_table s)"
proof (cases "dhcp (heap s p)")
  case None
  then show ?thesis by (simp add: dhcp_teardown_def a_close_def socket_table_def)
next
  case (Some r)
  then show ?thesis
    by (simp add: dhcp_teardown_def socket_table_close [where k = DhcpSvc] sock_of_other)
qed

lemma ndp_teardown_table:
  "socket_table (ndp_teardown os p s) = a_close (p, NdpSvc) (socket_table s)"
proof (cases "ndp (heap s p)")
  case None
  then show ?thesis by (simp add: ndp_teardown_def a_close_def socket_table_def)
next
  case (Some r)
  then show ?thesis
    by (simp add: ndp_teardown_def socket_table_close [where k = NdpSvc] sock_of_other)
qed

text \<open>Observations that ignore everything a service owns.\<close>

locale service_obs = mirror_obs +
  assumes obs_chans: "obs (s\<lparr>nextChan := n, closedChans := l, panicked := b\<rparr>) = obs s"
    and obs_timers: "obs (s\<lparr>timers := ts, nextTimer := m, readers := rs\<rparr>) = obs s"
    and obs_fields: "(\<And>i. config_of (f i) = config_of i) \<Longrightarrow> obs (upd p f s) = obs s"
begin

lemma obs_close_chan [simp]: "obs (close_chan c s) = obs s"
  using obs_chans [where s = s and n = "nextChan s" and l = "closedChans s @ [c]" and b = "panicked s"]
    obs_chans [where s = s and n = "nextChan s" and l = "closedChans s" and b = True]
  by (simp add: close_chan_def)

lemma obs_panicked [simp]: "obs (s\<lparr>panicked := b\<rparr>) = obs s"
  using obs_chans [where s = s and n = "nextChan s" and l = "closedChans s" and b = b] by simp

lemma obs_make_chan [simp]: "obs (snd (make_chan s)) = obs s"
  using obs_chans [where s = s and n = "Suc (nextChan s)" and l = "closedChans s" and b = "panicked s"] by (simp add: make_chan_def)

lemma obs_go [simp]: "obs (go r s) = obs s"
  using obs_timers [where s = s and ts = "timers s" and m = "nextTimer s"] by (simp add: go_def)

lemma obs_AfterFunc [simp]: "obs (snd (AfterFunc ms k s)) = obs s"
  using obs_timers [where s = s and rs = "readers s"] by (simp add: AfterFunc_def)

lemma obs_timer_Stop [simp]: "obs (timer_Stop t s) = obs s"
  using obs_timers [where s = s and m = "nextTimer s" and rs = "readers s"] by (simp add: timer_Stop_def)

lemma obs_upd_svc [simp]:
  "obs (upd p (\<lambda>i. i\<lparr>router := r\<rparr>) s) = obs s" "obs (upd p (\<lambda>i. i\<lparr>dhcp := d\<rparr>) s) = obs s"
  "obs (upd p (\<lambda>i. i\<lparr>ndp := n\<rparr>) s) = obs s" "obs (upd p (\<lambda>i. i\<lparr>rsTimer := t\<rparr>) s) = obs s"
  "obs (upd p (\<lambda>i. i\<lparr>rsTimerN := rsTimerN i + 1\<rparr>) s) = obs s"
  "obs (upd p (\<lambda>i. i\<lparr>router := r, raSent := m\<rparr>) s) = obs s"
  "obs (upd p (\<lambda>i. i\<lparr>raSent := raSent i + 1\<rparr>) s) = obs s"
  by (rule obs_fields; simp add: config_of_def)+

lemma obs_teardown [simp]:
  "obs (router_teardown os p s) = obs s" "obs (dhcp_teardown os p s) = obs s"
  "obs (ndp_teardown os p s) = obs s"
  by (simp_all add: router_teardown_def dhcp_teardown_def ndp_teardown_def split: option.split)

lemma obs_rsTimer [simp]:
  "obs (stop_rsTimer p s) = obs s" "obs (arm_rsTimer ms p g s) = obs s"
  by (simp_all add: stop_rsTimer_def arm_rsTimer_def case_prod_beta split: option.split)

lemma obs_routerSetup [simp]: "obs (snd (routerSetup os p e s)) = obs s"
  by (simp add: routerSetup_def Let_def case_prod_beta split: sum.split option.split)

lemma obs_dhcpv6Setup [simp]: "obs (snd (dhcpv6Setup os p e s)) = obs s"
  by (simp add: dhcpv6Setup_def Let_def case_prod_beta split: sum.split)

lemma obs_ndpSetup [simp]: "obs (snd (ndpSetup os p e s)) = obs s"
  by (simp add: ndpSetup_def ndp_capture_def Let_def case_prod_beta split: sum.split)

end

interpretation config_sobs: service_obs "\<lambda>s. config_of (heap s q)" for q
  by unfold_locales (simp_all add: config_of_def)
interpretation interfaces_sobs: service_obs interfaces by unfold_locales simp_all
interpretation nextPtr_sobs: service_obs nextPtr by unfold_locales simp_all
interpretation reconcileScheduled_sobs: service_obs reconcileScheduled by unfold_locales simp_all
interpretation configFile_sobs: service_obs cfg_ConfigFile by unfold_locales simp_all
interpretation logLevelCmdline_sobs: service_obs cfg_LogLevelCmdline by unfold_locales simp_all

lemma router_filter_ok: "router_filter \<noteq> None"
  by (simp add: router_filter_def icmp6FilterSetPass_def icmp6FilterBlockAll_def Let_def)

lemma seq_calls_accepted: "accepted os \<Longrightarrow> fst (seq_calls os cs s) = None"
  by (induction cs arbitrary: s) (auto simp: accepted_def case_prod_beta)

lemma setProxyNDP_accepted: "accepted os \<Longrightarrow> fst (setProxyNDP os n e s) = None"
  by (simp add: accepted_def setProxyNDP_def Let_def split: sum.split)

lemma willingD:
  "willing os \<Longrightarrow> accepted os" "willing os \<Longrightarrow> \<exists>fd. fst (sys_socket os k s) = Inr fd"
  by (auto simp: willing_def sys_socket_def)

lemma ndp_capture_up:
  assumes "accepted os"
  shows "socks (socket_table (snd (ndp_capture os p pingFd fd s))) (p, NdpSvc) \<noteq> None"
  using assms by (simp add: ndp_capture_def Let_def case_prod_beta setProxyNDP_accepted seq_calls_accepted
      make_chan_def socket_table_open del: seq_calls.simps)

interpretation router_svc: service routerSetup RouterSvc RA
proof unfold_locales
  fix os p s
  show "socket_table (snd (routerSetup os p False s)) = a_close (p, RouterSvc) (socket_table s)"
    by (simp add: routerSetup_def Let_def router_teardown_table)
  obtain filt where f: "router_filter = Some filt" using router_filter_ok by blast
  show "socket_table (snd (routerSetup os p True s)) = a_close (p, RouterSvc) (socket_table s) \<or>
      (\<exists>fds. socket_table (snd (routerSetup os p True s)) =
         a_open (p, RouterSvc) fds (a_close (p, RouterSvc) (socket_table s)))"
    by (auto simp: routerSetup_def Let_def case_prod_beta f router_teardown_table make_chan_def
        socket_table_upd_same socket_table_open sock_of_other split: sum.split)
  show "socket_table (snd (routerSetup os p True s)) = a_close (p, RouterSvc) (socket_table s)"
    if "RA (heap s p) = ModeDisabled"
    using that by (simp add: routerSetup_def Let_def router_teardown_table)
  show "socks (socket_table (snd (routerSetup os p True s))) (p, RouterSvc) \<noteq> None"
    if w: "willing os" and "RA (heap s p) \<noteq> ModeDisabled"
  proof -
    obtain fd where "fst (sys_socket os RawICMPv6Socket (router_teardown os p s)) = Inr fd" using willingD(2) [OF w] by blast
    with that willingD(1) [OF w] show ?thesis
      by (auto simp: routerSetup_def Let_def case_prod_beta f make_chan_def seq_calls_accepted
          socket_table_upd_same socket_table_open)
  qed
  show "RA i = RA j" if "config_of i = config_of j" for i j using config_ofD [OF that] by simp
qed simp_all

interpretation dhcp_svc: service dhcpv6Setup DhcpSvc DHCPv6
proof unfold_locales
  fix os p s
  show "socket_table (snd (dhcpv6Setup os p False s)) = a_close (p, DhcpSvc) (socket_table s)"
    by (simp add: dhcpv6Setup_def Let_def dhcp_teardown_table)
  show "socket_table (snd (dhcpv6Setup os p True s)) = a_close (p, DhcpSvc) (socket_table s) \<or>
      (\<exists>fds. socket_table (snd (dhcpv6Setup os p True s)) =
         a_open (p, DhcpSvc) fds (a_close (p, DhcpSvc) (socket_table s)))"
    by (auto simp: dhcpv6Setup_def Let_def case_prod_beta dhcp_teardown_table make_chan_def
        socket_table_open split: sum.split)
  show "socket_table (snd (dhcpv6Setup os p True s)) = a_close (p, DhcpSvc) (socket_table s)"
    if "DHCPv6 (heap s p) = ModeDisabled"
    using that by (simp add: dhcpv6Setup_def Let_def dhcp_teardown_table)
  show "socks (socket_table (snd (dhcpv6Setup os p True s))) (p, DhcpSvc) \<noteq> None"
    if w: "willing os" and "DHCPv6 (heap s p) \<noteq> ModeDisabled"
  proof -
    obtain fd where "fst (sys_socket os UdpSocket (dhcp_teardown os p s)) = Inr fd" using willingD(2) [OF w] by blast
    with that willingD(1) [OF w] show ?thesis
      by (auto simp: dhcpv6Setup_def Let_def case_prod_beta make_chan_def seq_calls_accepted
          socket_table_upd_same socket_table_open)
  qed
  show "DHCPv6 i = DHCPv6 j" if "config_of i = config_of j" for i j using config_ofD [OF that] by simp
qed simp_all

interpretation ndp_svc: service ndpSetup NdpSvc NDP
proof unfold_locales
  fix os p s
  show "socket_table (snd (ndpSetup os p False s)) = a_close (p, NdpSvc) (socket_table s)"
    by (simp add: ndpSetup_def Let_def ndp_teardown_table)
  show "socket_table (snd (ndpSetup os p True s)) = a_close (p, NdpSvc) (socket_table s) \<or>
      (\<exists>fds. socket_table (snd (ndpSetup os p True s)) =
         a_open (p, NdpSvc) fds (a_close (p, NdpSvc) (socket_table s)))"
    by (auto simp: ndpSetup_def ndp_capture_def Let_def case_prod_beta ndp_teardown_table make_chan_def
        socket_table_open split: sum.split)
  show "socket_table (snd (ndpSetup os p True s)) = a_close (p, NdpSvc) (socket_table s)"
    if "NDP (heap s p) = ModeDisabled"
    using that by (simp add: ndpSetup_def Let_def ndp_teardown_table)
  show "socks (socket_table (snd (ndpSetup os p True s))) (p, NdpSvc) \<noteq> None"
    if w: "willing os" and "NDP (heap s p) \<noteq> ModeDisabled"
  proof -
    have no: "fst (sys_socket os k s) \<noteq> Inl e" for k s e using willingD(2) [OF w, of k s] by auto
    show ?thesis
      using that(2) willingD(1) [OF w] no ndp_capture_up [OF willingD(1) [OF w]]
      by (auto simp: ndpSetup_def Let_def case_prod_beta seq_calls_accepted split: sum.split)
  qed
  show "NDP i = NDP j" if "config_of i = config_of j" for i j using config_ofD [OF that] by simp
qed simp_all

end
