(* ===== verification/Config.thy ===== *)
theory Config
  imports Services
begin

text \<open>
  \<^verbatim>\<open>config.go\<close>: the cached addresses of an interface, reading the configuration, and \<^verbatim>\<open>Reload\<close>, which
  applies it: it (re)starts the services of every configured interface and closes the others. The
  decoded JSON document is the answer of the decoder; \<^verbatim>\<open>range\<close> over its map takes any order.
\<close>

section \<open>Addresses of an interface\<close>

definition lifetimeAbs :: "int \<Rightarrow> u32 \<Rightarrow> u32" where
  "lifetimeAbs lft now =
     (if lft < 0 \<or> (word_of_int lft :: u32) = 0xffffffff then 0
      else let l = word_of_int lft :: u32
           in if 0xffffffff - now < l then 0xffffffff else l + now)"

definition fetch_one :: "u32 \<Rightarrow> kaddr \<Rightarrow> IPAddr list" where
  "fetch_one now a =
     (case addrFromSlice (ip_To16 (ka_IP a)) of
        None \<Rightarrow> []
      | Some ip \<Rightarrow>
          [\<lparr>Addr = unmap ip, PrefixLen = of_nat (fst (mask_size (ka_Mask a))),
            PreferredLT = lifetimeAbs (ka_PreferedLft a) now, ValidLT = lifetimeAbs (ka_ValidLft a) now,
            Tentative = (ka_Flags a AND IFA_F_TENTATIVE \<noteq> 0)\<rparr>])"

definition fetchAddr6 :: "os \<Rightarrow> int \<Rightarrow> st \<Rightarrow> IPAddr list \<times> st" where
  "fetchAddr6 os ifindex s =
     (case os_LinkByIndex os (clk s) ifindex of
        Inl _ \<Rightarrow> ([], tick s)
      | Inr link \<Rightarrow>
          (case os_AddrList os (clk (tick s)) (lk_Index link) of
             Inl _ \<Rightarrow> ([], tick (tick s))
           | Inr addrs \<Rightarrow>
               (case nowMono os (tick (tick s)) of (t, s) \<Rightarrow>
                  (concat (map (fetch_one (word_of_int t)) addrs), s))))"

definition updateLinkLocalState :: "Interface \<Rightarrow> Interface" where
  "updateLinkLocalState i =
     i\<lparr>cachedLLValid := False, HaveLinkLocal := list_ex (\<lambda>a. isLinkLocalUnicast (Addr a)) (Addr6 i)\<rparr>"

definition refreshInterfaceAddresses :: "os \<Rightarrow> ptr \<Rightarrow> st \<Rightarrow> st" where
  "refreshInterfaceAddresses os p s =
     (case fetchAddr6 os (Ifindex (heap s p)) s of (as, s) \<Rightarrow>
        upd p updateLinkLocalState (upd p (\<lambda>i. i\<lparr>Addr6 := as\<rparr>) s))"

section \<open>Services of an interface\<close>

definition disableServices :: "os \<Rightarrow> ptr \<Rightarrow> st \<Rightarrow> st" where
  "disableServices os p s =
     snd (ndpSetup os p False (snd (dhcpv6Setup os p False (snd (routerSetup os p False s)))))"

definition reloadServices :: "os \<Rightarrow> ptr \<Rightarrow> st \<Rightarrow> st" where
  "reloadServices os p s =
     (if Running (heap s p)
      then let s = Debugf ''Enabling services with %s running'' s;
               s = snd (routerSetup os p (RA (heap s p) \<noteq> ModeDisabled) s);
               s = snd (dhcpv6Setup os p (DHCPv6 (heap s p) \<noteq> ModeDisabled) s)
           in snd (ndpSetup os p (NDP (heap s p) \<noteq> ModeDisabled) s)
      else disableServices os p (Debugf ''Disabling services with %s not running'' s))"

definition closeInterface :: "os \<Rightarrow> ptr \<Rightarrow> st \<Rightarrow> st" where
  "closeInterface os p s =
     (let s = s\<lparr>interfaces := filter (\<lambda>x. fst x \<noteq> Name (heap s p)) (interfaces s)\<rparr>
      in stop_rsTimer p (disableServices os p s))"

section \<open>Reading the configuration\<close>

definition findOrCreateInterface :: "string \<Rightarrow> st \<Rightarrow> ptr \<times> st" where
  "findOrCreateInterface name s =
     (case map_of (interfaces s) name of
        Some p \<Rightarrow> (p, s)
      | None \<Rightarrow>
          (nextPtr s,
           s\<lparr>heap := (heap s)(nextPtr s := setInterfaceDefaults (zeroInterface\<lparr>Name := name\<rparr>)),
             nextPtr := Suc (nextPtr s), interfaces := interfaces s @ [(name, nextPtr s)]\<rparr>))"

datatype cfgError = NoIfname | LinkError errno

definition parse_ifname :: "os \<Rightarrow> ptr \<Rightarrow> string \<Rightarrow> st \<Rightarrow> cfgError option \<times> st" where
  "parse_ifname os p newIfname s =
     (case os_LinkByName os (clk s) newIfname of
        Inl e \<Rightarrow> (Some (LinkError e), tick s)
      | Inr link \<Rightarrow>
          (let s = tick s; i = heap s p;
               s = (if Ifindex i \<noteq> 0 \<and> (Ifname i \<noteq> newIfname \<or> Ifindex i \<noteq> lk_Index link)
                    then clearMirroredState os p (disableServices os p s) else s);
               s = upd p (\<lambda>i. i\<lparr>Ifname := newIfname, Ifindex := lk_Index link,
                     Running := (lk_RawFlags link AND IFF_RUNNING \<noteq> 0)\<rparr>) s
           in (None, refreshInterfaceAddresses os p s)))"

definition parse_flags :: "jsonIface \<Rightarrow> Interface \<Rightarrow> Interface" where
  "parse_flags obj i =
     i\<lparr>Inuse := True,
       Master := (case js_Master obj of None \<Rightarrow> Master i | Some b \<Rightarrow> b),
       LearnRoutes := (case js_NdproxyRouting obj of None \<Rightarrow> LearnRoutes i | Some b \<Rightarrow> b),
       NdpFromLinkLocal := (case js_NdpFromLinkLocal obj of None \<Rightarrow> NdpFromLinkLocal i | Some b \<Rightarrow> b)\<rparr>"

definition parseInterfaceJSON :: "os \<Rightarrow> string \<Rightarrow> jsonIface \<Rightarrow> st \<Rightarrow> cfgError option \<times> st" where
  "parseInterfaceJSON os name obj s =
     (case findOrCreateInterface name s of (p, s) \<Rightarrow>
        if Ifname (heap s p) = '''' \<and> js_Ifname obj = None then (Some NoIfname, s)
        else case (case js_Ifname obj of None \<Rightarrow> (None, s) | Some n \<Rightarrow> parse_ifname os p n s) of
            (Some e, s) \<Rightarrow> (Some e, s)
          | (None, s) \<Rightarrow> (None, upd p (parse_flags obj) s))"

definition load_iface :: "os \<Rightarrow> string \<times> jsonIface \<Rightarrow> st \<Rightarrow> st" where
  "load_iface os = (\<lambda>(name, obj) s.
     case parseInterfaceJSON os name obj s of (e, s) \<Rightarrow> if e \<noteq> None then Warnf ''%v'' s else s)"

definition load_level :: "jsonRoot \<Rightarrow> st \<Rightarrow> st" where
  "load_level root s =
     (case js_Global root of
        None \<Rightarrow> s
      | Some g \<Rightarrow> (case js_LogLevel g of
            None \<Rightarrow> s
          | Some l \<Rightarrow> if cfg_LogLevelCmdline s then s
              else Noticef ''Log level set to %d'' (s\<lparr>lg := SetLogLevel l (lg s)\<rparr>)))"

definition loadConfigJSON :: "os \<Rightarrow> string \<Rightarrow> st \<Rightarrow> st" where
  "loadConfigJSON os path s =
     (case os_ReadFile os (clk s) path of
        Inl _ \<Rightarrow> Errorf ''Failed to read JSON config from %s: %v'' (tick s)
      | Inr data \<Rightarrow>
          (case os_Unmarshal os data of
             Inl _ \<Rightarrow> Errorf ''Failed to parse JSON config from %s: %v'' (tick s)
           | Inr root \<Rightarrow>
               (let s = load_level root (tick s)
                in fold (load_iface os) (permute (os_order os (clk s)) (js_Interfaces root)) (tick s))))"

section \<open>Reload\<close>

definition reload_defaults :: "ptr \<Rightarrow> st \<Rightarrow> st" where
  "reload_defaults p s = upd p (\<lambda>i. (setInterfaceDefaults i)\<lparr>Inuse := False\<rparr>) s"

definition any_slave :: "(Interface \<Rightarrow> Mode) \<Rightarrow> ptr list \<Rightarrow> st \<Rightarrow> bool" where
  "any_slave mode cs s = list_ex (\<lambda>c. \<not> Master (heap s c) \<and> mode (heap s c) = ModeRelay) cs"

definition disable_master :: "bool \<Rightarrow> bool \<Rightarrow> bool \<Rightarrow> ptr \<Rightarrow> st \<Rightarrow> st" where
  "disable_master anyDHCPv6 anyRA anyNDP c s =
     (if \<not> Master (heap s c) then s
      else let s = (if DHCPv6 (heap s c) = ModeRelay \<and> \<not> anyDHCPv6
                    then upd c (\<lambda>i. i\<lparr>DHCPv6 := ModeDisabled\<rparr>) s else s);
               s = (if RA (heap s c) = ModeRelay \<and> \<not> anyRA
                    then upd c (\<lambda>i. i\<lparr>RA := ModeDisabled\<rparr>) s else s)
           in if NDP (heap s c) = ModeRelay \<and> \<not> anyNDP
              then upd c (\<lambda>i. i\<lparr>NDP := ModeDisabled\<rparr>) s else s)"

definition copyIfaceList :: "os \<Rightarrow> st \<Rightarrow> ptr list \<times> st" where
  "copyIfaceList os s = range_interfaces os s"

definition reload_iface :: "os \<Rightarrow> ptr \<Rightarrow> st \<Rightarrow> st" where
  "reload_iface os p s =
     (if Inuse (heap s p) then reloadServices os p s else closeInterface os p s)"

definition Reload :: "os \<Rightarrow> st \<Rightarrow> st" where
  "Reload os s =
     (let s = (case range_interfaces os s of (cs, s) \<Rightarrow> fold reload_defaults cs s);
          s = loadConfigJSON os (cfg_ConfigFile s) s
      in case range_interfaces os s of (cs, s) \<Rightarrow>
           (let d = any_slave DHCPv6 cs s; r = any_slave RA cs s; n = any_slave NDP cs s;
                s = (case range_interfaces os s of (cs, s) \<Rightarrow> fold (disable_master d r n) cs s)
            in case copyIfaceList os s of (cs, s) \<Rightarrow> fold (reload_iface os) cs s))"

section \<open>Frames\<close>

context quiet_obs
begin

lemma obs_fetchAddr6 [simp]: "obs (snd (fetchAddr6 os i s)) = obs s"
  by (simp add: fetchAddr6_def case_prod_beta split: sum.split)

lemma obs_copyIfaceList [simp]: "obs (snd (copyIfaceList os s)) = obs s"
  by (simp add: copyIfaceList_def)

end

context service_obs
begin

lemma obs_disableServices [simp]: "obs (disableServices os p s) = obs s"
  by (simp add: disableServices_def)

lemma obs_reloadServices [simp]: "obs (reloadServices os p s) = obs s"
  by (simp add: reloadServices_def Let_def)

end

text \<open>Everything \<^verbatim>\<open>refreshInterfaceAddresses\<close> leaves alone.\<close>

definition noaddr :: "Interface \<Rightarrow> Interface" where
  "noaddr i = i\<lparr>Addr6 := [], cachedLLValid := False, HaveLinkLocal := False\<rparr>"

lemma noaddr_simps [simp]:
  "noaddr (updateLinkLocalState i) = noaddr i" "noaddr (i\<lparr>Addr6 := as\<rparr>) = noaddr i"
  by (simp_all add: noaddr_def updateLinkLocalState_def)

lemma noaddrD:
  assumes "noaddr i = noaddr j"
  shows "Name i = Name j" "Ifname i = Ifname j" "Ifindex i = Ifindex j" "Running i = Running j"
    "Master i = Master j" "LearnRoutes i = LearnRoutes j" "NdpFromLinkLocal i = NdpFromLinkLocal j"
    "Inuse i = Inuse j" "RA i = RA j" "DHCPv6 i = DHCPv6 j" "NDP i = NDP j"
    "router i = router j" "dhcp i = dhcp j" "ndp i = ndp j"
    "raSent i = raSent j" "rsTimer i = rsTimer j" "rsTimerN i = rsTimerN j"
  using assms by (cases i; cases j; simp add: noaddr_def)+

lemma refresh_simps [simp]:
  "interfaces (refreshInterfaceAddresses os p s) = interfaces s"
  "nextPtr (refreshInterfaceAddresses os p s) = nextPtr s"
  "mirroredNeighs (refreshInterfaceAddresses os p s) = mirroredNeighs s"
  "timers (refreshInterfaceAddresses os p s) = timers s"
  "reconcileScheduled (refreshInterfaceAddresses os p s) = reconcileScheduled s"
  by (simp_all add: refreshInterfaceAddresses_def case_prod_beta)

lemma refresh_other [simp]: "q \<noteq> p \<Longrightarrow> heap (refreshInterfaceAddresses os p s) q = heap s q"
  by (simp add: refreshInterfaceAddresses_def case_prod_beta)

lemma refresh_noaddr: "noaddr (heap (refreshInterfaceAddresses os p s) q) = noaddr (heap s q)"
  by (simp add: refreshInterfaceAddresses_def case_prod_beta)

lemmas refresh_fields [simp] = noaddrD [OF refresh_noaddr]

lemma refresh_own [simp]:
  "Addr6 (heap (refreshInterfaceAddresses os p s) p) = fst (fetchAddr6 os (Ifindex (heap s p)) s)"
  "\<not> cachedLLValid (heap (refreshInterfaceAddresses os p s) p)"
  by (simp_all add: refreshInterfaceAddresses_def case_prod_beta updateLinkLocalState_def)

lemma sock_of_cong:
  "router i = router j \<Longrightarrow> dhcp i = dhcp j \<Longrightarrow> ndp i = ndp j \<Longrightarrow> sock_of k i = sock_of k j"
  by (cases k) simp_all

lemma socket_table_refresh [simp]:
  "socket_table (refreshInterfaceAddresses os p s) = socket_table s"
proof -
  have "sock_of k (updateLinkLocalState i) = sock_of k i" "sock_of k (i\<lparr>Addr6 := as\<rparr>) = sock_of k i" for k i as
    by (rule sock_of_cong; simp add: updateLinkLocalState_def)+
  then show ?thesis by (simp add: refreshInterfaceAddresses_def case_prod_beta socket_table_upd_same)
qed

section \<open>The invariant of the daemon\<close>

definition registered :: "st \<Rightarrow> ptr set" where
  "registered s = snd ` set (interfaces s)"

text \<open>The \<^verbatim>\<open>interfaces\<close> map: distinct keys, distinct live objects, each under its own name.\<close>

definition registry_ok :: "st \<Rightarrow> bool" where
  "registry_ok s = (distinct (map fst (interfaces s)) \<and> distinct (map snd (interfaces s)) \<and>
     (\<forall>(n, p) \<in> set (interfaces s). p < nextPtr s \<and> Name (heap s p) = n))"

text \<open>
  No panic, no socket shared between objects, and no socket held by an object the map has lost: nothing
  leaks when an interface is closed.
\<close>

definition sockets_ok :: "st \<Rightarrow> bool" where
  "sockets_ok s = (a_inv (socket_table s) \<and>
     (\<forall>p k. p \<notin> registered s \<longrightarrow> socks (socket_table s) (p, k) = None))"

definition caches_ok :: "st \<Rightarrow> bool" where
  "caches_ok s = (\<forall>p. cache_ok (heap s p))"

definition daemon_ok :: "st \<Rightarrow> bool" where
  "daemon_ok s = (registry_ok s \<and> sockets_ok s \<and> caches_ok s)"

text \<open>What the registry depends on.\<close>

definition reg_view :: "st \<Rightarrow> (string \<times> ptr) list \<times> ptr \<times> (ptr \<Rightarrow> string)" where
  "reg_view s = (interfaces s, nextPtr s, \<lambda>p. Name (heap s p))"

lemma reg_view_cong:
  assumes "reg_view s = reg_view t"
  shows "registry_ok s = registry_ok t" "registered s = registered t"
  using assms by (auto simp: reg_view_def registry_ok_def registered_def fun_eq_iff)

definition cache_view :: "Interface \<Rightarrow> IPAddr list \<times> addr \<times> bool" where
  "cache_view i = (Addr6 i, cachedLL i, cachedLLValid i)"

lemma cache_view_cong: "cache_view i = cache_view j \<Longrightarrow> cache_ok i = cache_ok j"
  by (auto simp: cache_view_def cache_ok_def ll_addrs_def)

lemma config_views:
  assumes "config_of i = config_of j"
  shows "cache_view i = cache_view j" "Name i = Name j"
  using config_ofD [OF assms] by (simp_all add: cache_view_def)

interpretation reg_sobs: service_obs reg_view
  by unfold_locales (auto simp: reg_view_def fun_eq_iff dest: config_views)
interpretation caches_sobs: service_obs caches_ok
proof unfold_locales
  fix f p s assume "\<And>i. config_of (f i) = config_of i"
  then have "cache_ok (f i) = cache_ok i" for i by (metis config_views(1) cache_view_cong)
  then show "caches_ok (upd p f s) = caches_ok s" by (auto simp: caches_ok_def)
qed (simp_all add: caches_ok_def)
interpretation registered_sobs: service_obs registered by unfold_locales (simp_all add: registered_def)

lemma registered_cache [simp]: "registered (upd p f s) = registered s"
  by (simp add: registered_def)

interpretation registered_cobs: cache_obs registered by unfold_locales simp

lemma disableServices_table:
  "socket_table (disableServices os p s) =
   a_close (p, NdpSvc) (a_close (p, DhcpSvc) (a_close (p, RouterSvc) (socket_table s)))"
  by (simp add: disableServices_def router_svc.conf_off dhcp_svc.conf_off ndp_svc.conf_off)

lemma disableServices_socks:
  "socks (socket_table (disableServices os p s)) (q, k) =
   (if q = p then None else socks (socket_table s) (q, k))"
  by (cases k) (simp_all add: disableServices_table)

lemma disableServices_inv: "a_inv (socket_table s) \<Longrightarrow> a_inv (socket_table (disableServices os p s))"
  by (simp add: disableServices_table a_inv_close)

lemma reloadServices_inv: "a_inv (socket_table s) \<Longrightarrow> a_inv (socket_table (reloadServices os p s))"
  by (simp add: reloadServices_def Let_def disableServices_inv ndp_svc.conf_inv dhcp_svc.conf_inv
      router_svc.conf_inv)

lemma reloadServices_socks:
  "q \<noteq> p \<Longrightarrow> socks (socket_table (reloadServices os p s)) (q, k) = socks (socket_table s) (q, k)"
  by (simp add: reloadServices_def Let_def disableServices_socks ndp_svc.conf_other dhcp_svc.conf_other
      router_svc.conf_other)

section \<open>Every operation keeps it\<close>

interpretation daemon_mobs: mirror_obs daemon_ok
  by unfold_locales (simp_all add: daemon_ok_def registry_ok_def sockets_ok_def caches_ok_def registered_def
      socket_table_def)

lemma daemon_lg: "daemon_ok (s\<lparr>lg := l\<rparr>) = daemon_ok s"
  by (simp add: daemon_ok_def registry_ok_def sockets_ok_def caches_ok_def registered_def socket_table_def)

lemma daemonI:
  assumes "daemon_ok s" "reg_view t = reg_view s" "caches_ok t = caches_ok s" "a_inv (socket_table t)"
    and "\<And>q k. q \<notin> registered s \<Longrightarrow> socks (socket_table t) (q, k) = socks (socket_table s) (q, k)"
  shows "daemon_ok t"
  using assms reg_view_cong [OF assms(2)] by (auto simp: daemon_ok_def sockets_ok_def)

lemma daemonD:
  assumes "daemon_ok s"
  shows "registry_ok s" "a_inv (socket_table s)" "cache_ok (heap s p)" "\<not> panicked s"
    "q \<notin> registered s \<Longrightarrow> socks (socket_table s) (q, k) = None"
  using assms by (auto simp: daemon_ok_def sockets_ok_def caches_ok_def a_inv_def socket_table_def)

lemma daemon_disable:
  assumes "daemon_ok s"
  shows "daemon_ok (disableServices os p s)"
  by (rule daemonI [OF assms])
    (use daemonD [OF assms] in \<open>simp_all add: disableServices_inv disableServices_socks\<close>)

lemma daemon_setup:
  assumes "daemon_ok s" "p \<in> registered s"
  shows "daemon_ok (snd (routerSetup os p e s))" "daemon_ok (snd (dhcpv6Setup os p e s))"
    "daemon_ok (snd (ndpSetup os p e s))"
proof -
  have ne: "(q, k) \<noteq> (p, l)" if "q \<notin> registered s" for q k l using that assms(2) by auto
  show "daemon_ok (snd (routerSetup os p e s))" "daemon_ok (snd (dhcpv6Setup os p e s))"
    "daemon_ok (snd (ndpSetup os p e s))"
    by (rule daemonI [OF assms(1)]; (simp add: daemonD(2) [OF assms(1)] router_svc.conf_inv dhcp_svc.conf_inv
      ndp_svc.conf_inv)?; (rule router_svc.conf_other dhcp_svc.conf_other ndp_svc.conf_other; erule ne)?)+
qed

lemma daemon_reloadServices:
  assumes "daemon_ok s" "p \<in> registered s"
  shows "daemon_ok (reloadServices os p s)"
  using assms by (simp add: reloadServices_def Let_def daemon_setup daemon_disable)

lemma daemon_upd:
  assumes "daemon_ok s" "\<And>i. Name (f i) = Name i" "\<And>k i. sock_of k (f i) = sock_of k i"
    and "\<And>i. cache_ok i \<Longrightarrow> cache_ok (f i)"
  shows "daemon_ok (upd p f s)"
proof -
  have "reg_view (upd p f s) = reg_view s" using assms(2) by (auto simp: reg_view_def)
  moreover have "socket_table (upd p f s) = socket_table s" using assms(3) by (rule socket_table_upd_same)
  moreover have "caches_ok (upd p f s)"
    using daemonD(3) [OF assms(1)] assms(4) by (simp add: caches_ok_def)
  ultimately show ?thesis
    using daemonI [OF assms(1)] daemonD [OF assms(1)] assms(1) by (simp add: daemon_ok_def)
qed

lemma daemon_refresh:
  assumes "daemon_ok s"
  shows "daemon_ok (refreshInterfaceAddresses os p s)"
proof (rule daemonI [OF assms])
  show "caches_ok (refreshInterfaceAddresses os p s) = caches_ok s"
    using daemonD(3) [OF assms] refresh_other refresh_own(2)
    by (metis cache_ok_def caches_ok_def)
qed (use daemonD(2) [OF assms] in \<open>simp_all add: reg_view_def\<close>)

lemma daemon_ll:
  assumes "daemon_ok s"
  shows "daemon_ok (snd (getLinkLocalAddr p s))"
proof (rule daemonI [OF assms])
  have "heap (snd (getLinkLocalAddr p s)) q = heap s q" if "q \<noteq> p" for q
    using getLinkLocalAddr_upd [of p s] that by auto
  then show "caches_ok (snd (getLinkLocalAddr p s)) = caches_ok s"
    using getLinkLocalAddr_correct(2) [OF daemonD(3) [OF assms]] daemonD(3) [OF assms]
    by (metis caches_ok_def)
qed (use daemonD(2) [OF assms] in \<open>simp_all add: reg_view_def coreD(1) [OF core_cobs.obs_getLinkLocalAddr]\<close>)

lemma findOrCreateInterface_spec:
  fixes name :: string
  assumes "daemon_ok s"
  defines "r \<equiv> findOrCreateInterface name s"
  shows "daemon_ok (snd r)" "map_of (interfaces (snd r)) name = Some (fst r)"
    "registered (snd r) = insert (fst r) (registered s)"
    "map_of (interfaces s) name = None \<Longrightarrow>
      fst r \<notin> registered s \<and> heap (snd r) (fst r) = setInterfaceDefaults (zeroInterface\<lparr>Name := name\<rparr>)"
proof -
  have ok: "registry_ok s" using daemonD(1) [OF assms(1)] .
  have "daemon_ok (snd r) \<and> map_of (interfaces (snd r)) name = Some (fst r) \<and>
    registered (snd r) = insert (fst r) (registered s) \<and> (map_of (interfaces s) name = None \<longrightarrow>
      fst r \<notin> registered s \<and> heap (snd r) (fst r) = setInterfaceDefaults (zeroInterface\<lparr>Name := name\<rparr>))"
  proof (cases "map_of (interfaces s) name")
    case (Some p)
    then show ?thesis
      using assms(1) map_of_SomeD [OF Some] by (force simp: r_def findOrCreateInterface_def registered_def)
  next
    case None
    have np: "nextPtr s \<notin> registered s" using ok by (auto simp: registry_ok_def registered_def)
    have sk: "sock_of k (heap s (nextPtr s)) = None" for k
      using daemonD(5) [OF assms(1) np, of k] by (simp add: socket_table_def)
    have none: "sock_of k (setInterfaceDefaults (zeroInterface\<lparr>Name := name\<rparr>)) = None" for k
      by (cases k) (simp_all add: setInterfaceDefaults_def zeroInterface_def)
    have r: "r = (nextPtr s,
        s\<lparr>heap := (heap s)(nextPtr s := setInterfaceDefaults (zeroInterface\<lparr>Name := name\<rparr>)),
          nextPtr := Suc (nextPtr s), interfaces := interfaces s @ [(name, nextPtr s)]\<rparr>)"
      using None by (simp add: r_def findOrCreateInterface_def)
    have t: "socket_table (snd r) = socket_table s"
      using sk none by (auto simp: r socket_table_def fun_eq_iff)
    have reg: "registered (snd r) = insert (nextPtr s) (registered s)"
      by (simp add: r registered_def)
    have "name \<notin> fst ` set (interfaces s)" using None by (simp add: map_of_eq_None_iff)
    then have "registry_ok (snd r)"
      using ok np unfolding registry_ok_def registered_def r
      by (auto simp: setInterfaceDefaults_def zeroInterface_def less_Suc_eq)
    moreover have "caches_ok (snd r)"
      using daemonD(3) [OF assms(1)]
      by (simp add: caches_ok_def r cache_ok_def setInterfaceDefaults_def)
    ultimately have "daemon_ok (snd r)"
      using assms(1) reg by (simp add: daemon_ok_def sockets_ok_def t)
    then show ?thesis
      using None np reg by (simp add: r_def findOrCreateInterface_def map_add_Some_iff)
  qed
  then show "daemon_ok (snd r)" "map_of (interfaces (snd r)) name = Some (fst r)"
    "registered (snd r) = insert (fst r) (registered s)"
    "map_of (interfaces s) name = None \<Longrightarrow>
      fst r \<notin> registered s \<and> heap (snd r) (fst r) = setInterfaceDefaults (zeroInterface\<lparr>Name := name\<rparr>)"
    by simp_all
qed

lemma registered_closeInterface:
  assumes "registry_ok s" "p \<in> registered s"
  shows "registered (closeInterface os p s) = registered s - {p}"
proof -
  obtain n where n: "(n, p) \<in> set (interfaces s)" using assms(2) by (auto simp: registered_def)
  then have nm: "Name (heap s p) = n" using assms(1) by (auto simp: registry_ok_def)
  have d: "inj_on fst (set (interfaces s))" "inj_on snd (set (interfaces s))"
    using assms(1) by (auto simp: registry_ok_def distinct_map)
  have "fst x \<noteq> n \<longleftrightarrow> snd x \<noteq> p" if "x \<in> set (interfaces s)" for x
    using inj_on_eq_iff [OF d(1) that n] inj_on_eq_iff [OF d(2) that n] by (cases x) simp
  then have "{x \<in> set (interfaces s). fst x \<noteq> n} = {x \<in> set (interfaces s). snd x \<noteq> p}" by blast
  then have "snd ` {x \<in> set (interfaces s). fst x \<noteq> n} = registered s - {p}"
    by (auto simp: registered_def)
  then show ?thesis
    by (simp add: closeInterface_def Let_def nm) (simp add: registered_def)
qed

lemma daemon_closeInterface:
  assumes "daemon_ok s" "p \<in> registered s"
  shows "daemon_ok (closeInterface os p s)"
proof -
  let ?s = "s\<lparr>interfaces := filter (\<lambda>x. fst x \<noteq> Name (heap s p)) (interfaces s)\<rparr>"
  let ?t = "closeInterface os p s"
  have t: "socket_table ?t = socket_table (disableServices os p ?s)"
    by (simp add: closeInterface_def Let_def)
  have "registry_ok ?s"
    using daemonD(1) [OF assms(1)]
    by (auto simp: registry_ok_def distinct_map_filter)
  moreover have "reg_view ?t = reg_view ?s" by (simp add: closeInterface_def Let_def)
  ultimately have "registry_ok ?t" using reg_view_cong(1) by blast
  moreover have "caches_ok ?t"
    using daemonD(3) [OF assms(1)] by (simp add: closeInterface_def Let_def) (simp add: caches_ok_def)
  moreover have "socks (socket_table ?t) (q, k) = None" if "q \<notin> registered s - {p}" for q k
    using daemonD(5) [OF assms(1)] that unfolding t by (auto simp: disableServices_socks)
  ultimately show ?thesis
    using registered_closeInterface [OF daemonD(1) [OF assms(1)] assms(2)] daemonD(2) [OF assms(1)]
    by (simp add: daemon_ok_def sockets_ok_def t disableServices_inv)
qed

section \<open>Loading the configuration\<close>

text \<open>The part of an interface a configuration sets.\<close>

definition settings :: "Interface \<Rightarrow> bool \<times> bool \<times> bool \<times> bool \<times> Mode \<times> Mode \<times> Mode" where
  "settings i = (Inuse i, Master i, LearnRoutes i, NdpFromLinkLocal i, RA i, DHCPv6 i, NDP i)"

lemma settingsD:
  assumes "settings i = settings j"
  shows "Inuse i = Inuse j" "Master i = Master j" "LearnRoutes i = LearnRoutes j"
    "NdpFromLinkLocal i = NdpFromLinkLocal j" "RA i = RA j" "DHCPv6 i = DHCPv6 j" "NDP i = NDP j"
  using assms by (simp_all add: settings_def)

lemma settings_config:
  assumes "config_of i = config_of j"
  shows "settings i = settings j"
  using config_ofD [OF assms] by (simp add: settings_def)

interpretation settings_sobs: service_obs "\<lambda>s. settings (heap s q)" for q
  by unfold_locales (auto intro: settings_config)
interpretation running_sobs: service_obs "\<lambda>s. Running (heap s q)" for q
  by unfold_locales (auto dest: config_ofD)
interpretation ifname_sobs: service_obs "\<lambda>s. Ifname (heap s q)" for q
  by unfold_locales (auto dest: config_ofD)

lemma parse_ifname_frame:
  "interfaces (snd (parse_ifname os p n s)) = interfaces s"
  "nextPtr (snd (parse_ifname os p n s)) = nextPtr s"
  "settings (heap (snd (parse_ifname os p n s)) q) = settings (heap s q)"
  "q \<noteq> p \<Longrightarrow> config_of (heap (snd (parse_ifname os p n s)) q) = config_of (heap s q)"
  "fst (parse_ifname os p n s) = None \<Longrightarrow> Ifname (heap (snd (parse_ifname os p n s)) p) = n"
  "fst (parse_ifname os p n s) = None \<longleftrightarrow> (\<exists>l. os_LinkByName os (clk s) n = Inr l)"
proof -
  have u: "settings (i\<lparr>Ifname := a, Ifindex := b, Running := c\<rparr>) = settings i" for i a b c
    by (simp add: settings_def)
  have r: "settings (heap (refreshInterfaceAddresses os p s) q) = settings (heap s q)" for s q
    by (simp add: settings_def)
  show "interfaces (snd (parse_ifname os p n s)) = interfaces s"
    "nextPtr (snd (parse_ifname os p n s)) = nextPtr s"
    "settings (heap (snd (parse_ifname os p n s)) q) = settings (heap s q)"
    "q \<noteq> p \<Longrightarrow> config_of (heap (snd (parse_ifname os p n s)) q) = config_of (heap s q)"
    "fst (parse_ifname os p n s) = None \<Longrightarrow> Ifname (heap (snd (parse_ifname os p n s)) p) = n"
    "fst (parse_ifname os p n s) = None \<longleftrightarrow> (\<exists>l. os_LinkByName os (clk s) n = Inr l)"
    by (auto simp: parse_ifname_def Let_def r u split: sum.split sum.split_asm)
qed

lemma daemon_parse_ifname:
  assumes "daemon_ok s"
  shows "daemon_ok (snd (parse_ifname os p n s))"
proof -
  have "sock_of k (i\<lparr>Ifname := a, Ifindex := b, Running := c\<rparr>) = sock_of k i" for k i a b c
    by (rule sock_of_cong) simp_all
  moreover have "cache_ok (i\<lparr>Ifname := a, Ifindex := b, Running := c\<rparr>) = cache_ok i" for i a b c
    by (rule cache_view_cong) (simp add: cache_view_def)
  ultimately have "daemon_ok (upd p (\<lambda>i. i\<lparr>Ifname := a, Ifindex := b, Running := c\<rparr>) t)"
    if "daemon_ok t" for t a b c using that by (intro daemon_upd) simp_all
  with assms show ?thesis
    by (simp add: parse_ifname_def Let_def daemon_refresh daemon_disable split: sum.split)
qed

lemma daemon_parse_flags:
  assumes "daemon_ok s"
  shows "daemon_ok (upd p (parse_flags obj) s)"
proof (rule daemon_upd [OF assms])
  show "sock_of k (parse_flags obj i) = sock_of k i" for k i
    by (rule sock_of_cong) (simp_all add: parse_flags_def)
  show "cache_ok (parse_flags obj i)" if "cache_ok i" for i
    using that cache_view_cong [of "parse_flags obj i" i] by (simp add: cache_view_def parse_flags_def)
qed (simp add: parse_flags_def)

text \<open>What one entry of the configuration does: its object is found or made, and only it changes.\<close>

lemma parseInterfaceJSON_spec:
  fixes name :: string and obj :: jsonIface and os :: os and s :: st
  assumes "daemon_ok s"
  defines "f \<equiv> findOrCreateInterface name s" and "r \<equiv> parseInterfaceJSON os name obj s"
  shows "daemon_ok (snd r)" "interfaces (snd r) = interfaces (snd f)"
    "q \<noteq> fst f \<Longrightarrow> settings (heap (snd r) q) = settings (heap (snd f) q)"
    "q \<noteq> fst f \<Longrightarrow> Ifname (heap (snd r) q) = Ifname (heap (snd f) q)"
    "fst r \<noteq> None \<Longrightarrow> settings (heap (snd r) (fst f)) = settings (heap (snd f) (fst f))"
    "fst r = None \<Longrightarrow> settings (heap (snd r) (fst f)) = settings (parse_flags obj (heap (snd f) (fst f)))"
    "fst r = None \<Longrightarrow> js_Ifname obj = Some n \<Longrightarrow> Ifname (heap (snd r) (fst f)) = n"
    "js_Ifname obj = Some n \<Longrightarrow> \<forall>t. \<exists>l. os_LinkByName os t n = Inr l \<Longrightarrow> fst r = None"
proof -
  obtain p t where f: "f = (p, t)" by (cases f)
  have t: "daemon_ok t" using findOrCreateInterface_spec(1) [OF assms(1), of name] f by (simp add: f_def)
  define m where "m = (case js_Ifname obj of None \<Rightarrow> (None, t) | Some n \<Rightarrow> parse_ifname os p n t)"
  have m: "daemon_ok (snd m)" "interfaces (snd m) = interfaces t" "settings (heap (snd m) q) = settings (heap t q)"
    "q \<noteq> p \<Longrightarrow> Ifname (heap (snd m) q) = Ifname (heap t q)" for q
    using t daemon_parse_ifname [OF t] config_ofD(2) [OF parse_ifname_frame(4)]
    by (simp_all add: m_def parse_ifname_frame split: option.split)
  have r: "r = (if Ifname (heap t p) = '''' \<and> js_Ifname obj = None then (Some NoIfname, t)
      else case fst m of Some e \<Rightarrow> (Some e, snd m) | None \<Rightarrow> (None, upd p (parse_flags obj) (snd m)))"
    using f by (simp add: r_def f_def parseInterfaceJSON_def m_def case_prod_beta split: option.split)
  have pf: "settings (parse_flags obj i) = settings (parse_flags obj j)" if "settings i = settings j" for i j
    using settingsD [OF that] by (simp add: settings_def parse_flags_def split: option.split)
  show "daemon_ok (snd r)" "interfaces (snd r) = interfaces (snd f)"
    "q \<noteq> fst f \<Longrightarrow> settings (heap (snd r) q) = settings (heap (snd f) q)"
    "q \<noteq> fst f \<Longrightarrow> Ifname (heap (snd r) q) = Ifname (heap (snd f) q)"
    "fst r \<noteq> None \<Longrightarrow> settings (heap (snd r) (fst f)) = settings (heap (snd f) (fst f))"
    "fst r = None \<Longrightarrow> settings (heap (snd r) (fst f)) = settings (parse_flags obj (heap (snd f) (fst f)))"
    using t m pf [OF m(3)] by (auto simp: r f daemon_parse_flags split: option.split option.split_asm if_splits)
  show "Ifname (heap (snd r) (fst f)) = n" if "fst r = None" "js_Ifname obj = Some n"
    using that parse_ifname_frame(5) [of os p n t]
    by (auto simp: r f m_def parse_flags_def split: option.split_asm)
  show "fst r = None" if "js_Ifname obj = Some n" "\<forall>t. \<exists>l. os_LinkByName os t n = Inr l"
    using that parse_ifname_frame(6) [of os p n t] by (auto simp: r m_def)
qed

text \<open>
  An interface set up by an entry. The two route options default to true; the master flag and the
  interface name are pinned only where the entry gives them.
\<close>

definition configured_by :: "jsonIface \<Rightarrow> Interface \<Rightarrow> bool" where
  "configured_by obj i =
     (LearnRoutes i = (case js_NdproxyRouting obj of None \<Rightarrow> True | Some b \<Rightarrow> b) \<and>
      NdpFromLinkLocal i = (case js_NdpFromLinkLocal obj of None \<Rightarrow> True | Some b \<Rightarrow> b) \<and>
      (\<forall>b. js_Master obj = Some b \<longrightarrow> Master i = b) \<and> (\<forall>n. js_Ifname obj = Some n \<longrightarrow> Ifname i = n))"

definition relaying :: "Interface \<Rightarrow> bool" where
  "relaying i = (RA i = ModeRelay \<and> DHCPv6 i = ModeRelay \<and> NDP i = ModeRelay)"

definition loaded_one :: "(string \<times> jsonIface) set \<Rightarrow> string \<Rightarrow> Interface \<Rightarrow> bool" where
  "loaded_one D n i = (relaying i \<and>
     (if Inuse i then \<exists>obj. (n, obj) \<in> D \<and> configured_by obj i else LearnRoutes i \<and> NdpFromLinkLocal i))"

definition loaded :: "(string \<times> jsonIface) set \<Rightarrow> st \<Rightarrow> bool" where
  "loaded D s = (\<forall>(n, p) \<in> set (interfaces s). loaded_one D n (heap s p))"

lemma configured_config: "config_of i = config_of j \<Longrightarrow> configured_by obj i = configured_by obj j"
  using config_ofD [of i j] by (simp add: configured_by_def)

lemma loaded_one_cong:
  assumes "settings i = settings j" "Ifname i = Ifname j" "loaded_one D n j" "D \<subseteq> E"
  shows "loaded_one E n i"
  using settingsD [OF assms(1)] assms(2-4)
  by (auto simp: loaded_one_def relaying_def configured_by_def split: if_splits)

lemma loaded_one_settings:
  assumes "settings i = settings j" "\<not> Inuse j" "loaded_one D n j"
  shows "loaded_one E n i"
  using settingsD [OF assms(1)] assms(2, 3) by (auto simp: loaded_one_def relaying_def)

lemma registry_unique:
  assumes "registry_ok s" "(m, p) \<in> set (interfaces s)" "(n, p) \<in> set (interfaces s)"
  shows "m = n"
  using assms by (metis (mono_tags, lifting) case_prodD registry_ok_def)

lemma findOrCreateInterface_loaded:
  assumes "daemon_ok s" "loaded D s" "name \<notin> fst ` D"
  defines "f \<equiv> findOrCreateInterface name s"
  shows "loaded D (snd f)" "\<not> Inuse (heap (snd f) (fst f))"
proof -
  have "loaded D (snd f) \<and> \<not> Inuse (heap (snd f) (fst f))"
  proof (cases "map_of (interfaces s) name")
    case (Some p)
    then have "loaded_one D name (heap s p)" using assms(2) map_of_SomeD [OF Some] by (auto simp: loaded_def)
    then have "\<not> Inuse (heap s p)" using assms(3) by (force simp: loaded_one_def)
    then show ?thesis using assms(2) Some by (simp add: f_def findOrCreateInterface_def)
  next
    case None
    have "p \<noteq> nextPtr s" if "(n, p) \<in> set (interfaces s)" for n p
      using that daemonD(1) [OF assms(1)] by (auto simp: registry_ok_def)
    then show ?thesis
      using assms(2) None
      by (auto simp: f_def findOrCreateInterface_def loaded_def loaded_one_def relaying_def
          setInterfaceDefaults_def zeroInterface_def)
  qed
  then show "loaded D (snd f)" "\<not> Inuse (heap (snd f) (fst f))" by simp_all
qed

lemma load_iface_step:
  fixes os :: os and obj :: jsonIface
  assumes "daemon_ok s" "loaded D s" "name \<notin> fst ` D"
  defines "t \<equiv> load_iface os (name, obj) s"
  shows "daemon_ok t" "loaded (insert (name, obj) D) t"
proof -
  define f where "f = findOrCreateInterface name s"
  define r where "r = parseInterfaceJSON os name obj s"
  note P = parseInterfaceJSON_spec [OF assms(1), where name = name and os = os and obj = obj,
      folded f_def r_def]
  note F = findOrCreateInterface_spec [OF assms(1), of name, folded f_def]
  note L = findOrCreateInterface_loaded [OF assms(1-3), folded f_def]
  have t: "t = (if fst r \<noteq> None then Warnf ''%v'' (snd r) else snd r)"
    by (simp add: t_def load_iface_def r_def case_prod_beta)
  then show "daemon_ok t" using P(1) by simp
  have reg: "registry_ok (snd r)" using daemonD(1) [OF P(1)] .
  have "loaded_one (insert (name, obj) D) n (heap (snd r) q)" if nq: "(n, q) \<in> set (interfaces (snd r))" for n q
  proof (cases "q = fst f")
    case False
    have "loaded_one D n (heap (snd f) q)" using L(1) nq P(2) by (auto simp: loaded_def)
    with loaded_one_cong [OF P(3) [OF False] P(4) [OF False]] show ?thesis by blast
  next
    case True
    have "(name, q) \<in> set (interfaces (snd r))" using map_of_SomeD [OF F(2)] P(2) True by simp
    then have n: "n = name" using registry_unique [OF reg nq] by simp
    have o: "loaded_one D n (heap (snd f) (fst f))" using L(1) nq P(2) True by (auto simp: loaded_def)
    show ?thesis
    proof (cases "fst r = None")
      case False
      then show ?thesis using loaded_one_settings [OF P(5) [OF False] L(2) o] True by simp
    next
      case e: True
      note S = settingsD [OF P(6) [OF e]]
      have "configured_by obj (heap (snd r) (fst f))"
        using S(2-4) P(7) [OF e] o L(2)
        by (auto simp: configured_by_def parse_flags_def loaded_one_def split: option.split)
      then show ?thesis
        using S(1) S(5-7) o True n by (auto simp: loaded_one_def relaying_def parse_flags_def)
    qed
  qed
  then show "loaded (insert (name, obj) D) t" by (auto simp: loaded_def t)
qed

lemma load_all:
  assumes "daemon_ok s" "loaded D s" "distinct (map fst xs)" "fst ` D \<inter> fst ` set xs = {}"
  shows "daemon_ok (fold (load_iface os) xs s) \<and> loaded (D \<union> set xs) (fold (load_iface os) xs s)"
  using assms
proof (induction xs arbitrary: s D)
  case (Cons x xs)
  obtain n obj where x: "x = (n, obj)" by (cases x)
  have n: "n \<notin> fst ` D" using Cons.prems(4) x by auto
  note step = load_iface_step [OF Cons.prems(1, 2) n, where os = os and obj = obj]
  have "fst ` insert (n, obj) D \<inter> fst ` set xs = {}" using Cons.prems(3, 4) x by auto
  then show ?case
    using Cons.IH [OF step] Cons.prems(3) x by simp
qed simp

section \<open>Reload\<close>

fun mode_of :: "svc \<Rightarrow> Interface \<Rightarrow> Mode" where
  "mode_of RouterSvc i = RA i"
| "mode_of DhcpSvc i = DHCPv6 i"
| "mode_of NdpSvc i = NDP i"

abbreviation has_sock :: "st \<Rightarrow> ptr \<Rightarrow> svc \<Rightarrow> bool" where
  "has_sock s p k \<equiv> socks (socket_table s) (p, k) \<noteq> None"

lemma mode_of_settings: "settings i = settings j \<Longrightarrow> mode_of k i = mode_of k j"
  by (cases k) (simp_all add: settings_def)

text \<open>After \<^verbatim>\<open>reloadServices\<close> a service has a socket only if it should, and always if nothing fails.\<close>

lemma reloadServices_only_if:
  assumes "has_sock (reloadServices os p s) p k"
  shows "Running (heap s p) \<and> mode_of k (heap s p) \<noteq> ModeDisabled"
proof (cases "Running (heap s p)")
  case False
  with assms show ?thesis by (simp add: reloadServices_def disableServices_socks)
next
  case True
  with assms show ?thesis
    by (cases k) (auto simp: reloadServices_def Let_def ndp_svc.conf_other dhcp_svc.conf_other
        dest: router_svc.conf_only_if [OF not_None_eq [THEN iffD2], OF exI]
          dhcp_svc.conf_only_if [OF not_None_eq [THEN iffD2], OF exI]
          ndp_svc.conf_only_if [OF not_None_eq [THEN iffD2], OF exI])
qed

lemma reloadServices_up:
  assumes "willing os" "Running (heap s p)" "mode_of k (heap s p) \<noteq> ModeDisabled"
  shows "has_sock (reloadServices os p s) p k"
  using assms router_svc.conf_up [OF assms(1)] dhcp_svc.conf_up [OF assms(1)] ndp_svc.conf_up [OF assms(1)]
  by (cases k) (auto simp: reloadServices_def Let_def ndp_svc.conf_other dhcp_svc.conf_other)

lemma reload_iface_config: "config_of (heap (reload_iface os p s) q) = config_of (heap s q)"
  by (simp add: reload_iface_def closeInterface_def Let_def)

lemma reload_iface_registered:
  assumes "registry_ok s" "p \<in> registered s"
  shows "registered (reload_iface os p s) = (if Inuse (heap s p) then registered s else registered s - {p})"
    "set (interfaces (reload_iface os p s)) \<subseteq> set (interfaces s)"
  using registered_closeInterface [OF assms] by (auto simp: reload_iface_def closeInterface_def Let_def)

lemma reload_iface_socks:
  "q \<noteq> p \<Longrightarrow> socks (socket_table (reload_iface os p s)) (q, k) = socks (socket_table s) (q, k)"
  by (simp add: reload_iface_def closeInterface_def Let_def reloadServices_socks disableServices_socks)

lemma reload_iface_own:
  "has_sock (reload_iface os p s) p k \<Longrightarrow> Running (heap s p) \<and> mode_of k (heap s p) \<noteq> ModeDisabled"
  "willing os \<Longrightarrow> Inuse (heap s p) \<Longrightarrow> Running (heap s p) \<Longrightarrow> mode_of k (heap s p) \<noteq> ModeDisabled \<Longrightarrow>
   has_sock (reload_iface os p s) p k"
  using reloadServices_only_if [of os p s k] reloadServices_up [of os s p k]
  by (auto simp: reload_iface_def closeInterface_def Let_def disableServices_socks split: if_splits)

definition service_ok :: "st \<Rightarrow> ptr \<Rightarrow> bool" where
  "service_ok s p = (\<forall>k. has_sock s p k \<longrightarrow> Running (heap s p) \<and> mode_of k (heap s p) \<noteq> ModeDisabled)"

definition service_up :: "st \<Rightarrow> ptr \<Rightarrow> bool" where
  "service_up s p = (\<forall>k. Inuse (heap s p) \<and> Running (heap s p) \<and> mode_of k (heap s p) \<noteq> ModeDisabled \<longrightarrow>
     has_sock s p k)"

lemma mode_config:
  assumes "config_of i = config_of j"
  shows "mode_of k i = mode_of k j" "Running i = Running j" "Inuse i = Inuse j"
  using config_ofD [OF assms] by (cases k; simp)+

lemma reload_iface_service:
  "service_ok (reload_iface os p s) p" "willing os \<Longrightarrow> service_up (reload_iface os p s) p"
  "q \<noteq> p \<Longrightarrow> service_ok (reload_iface os p s) q = service_ok s q"
  "q \<noteq> p \<Longrightarrow> service_up (reload_iface os p s) q = service_up s q"
  using reload_iface_own [where os = os and p = p and s = s] reload_iface_socks [of q p os s]
  by (simp_all add: service_ok_def service_up_def mode_config [OF reload_iface_config])

lemma reload_all:
  fixes os :: os
  assumes "daemon_ok s" "set cs \<subseteq> registered s" "distinct cs"
  defines "t \<equiv> fold (reload_iface os) cs s"
  shows "daemon_ok t \<and> registered t = {p \<in> registered s. p \<in> set cs \<longrightarrow> Inuse (heap s p)} \<and>
    set (interfaces t) \<subseteq> set (interfaces s) \<and> (\<forall>q. config_of (heap t q) = config_of (heap s q)) \<and>
    (\<forall>q \<in> set cs. service_ok t q \<and> (willing os \<longrightarrow> service_up t q)) \<and>
    (\<forall>q. q \<notin> set cs \<longrightarrow> service_ok t q = service_ok s q \<and> service_up t q = service_up s q)"
  unfolding t_def using assms(1-3)
proof (induction cs arbitrary: s)
  case (Cons c cs)
  let ?s = "reload_iface os c s"
  have c: "c \<in> registered s" using Cons.prems(2) by simp
  have d: "daemon_ok ?s"
    using Cons.prems(1) c by (simp add: reload_iface_def daemon_reloadServices daemon_closeInterface)
  note R = reload_iface_registered [OF daemonD(1) [OF Cons.prems(1)] c, of os]
  have sub: "set cs \<subseteq> registered ?s" using Cons.prems(2, 3) R(1) by auto
  have Inu: "Inuse (heap ?s q) = Inuse (heap s q)" for q by (rule mode_config [OF reload_iface_config])
  note IH = Cons.IH [OF d sub]
  show ?case
    using IH R Cons.prems(3) reload_iface_service [where os = os and p = c and s = s]
      reload_iface_config [of os c s]
    by (auto simp: Inu)
qed simp

text \<open>A loop that rewrites every object of a list by an idempotent function.\<close>

lemma fold_upd:
  assumes "\<And>i. f (f i) = f i"
  shows "fold (\<lambda>p. upd p f) cs s = s\<lparr>heap := \<lambda>q. if q \<in> set cs then f (heap s q) else heap s q\<rparr>"
proof (induction cs arbitrary: s)
  case (Cons c cs)
  have "(\<lambda>q. if q \<in> set cs then f (heap (upd c f s) q) else heap (upd c f s) q) =
      (\<lambda>q. if q \<in> set (c # cs) then f (heap s q) else heap s q)"
    using assms by auto
  then show ?case using Cons.IH [of "upd c f s"] by (simp add: upd_def)
qed simp

lemma daemon_fold_upd:
  assumes "daemon_ok s" "\<And>i. Name (f i) = Name i" "\<And>k i. sock_of k (f i) = sock_of k i"
    and "\<And>i. cache_ok i \<Longrightarrow> cache_ok (f i)"
  shows "daemon_ok (fold (\<lambda>p. upd p f) cs s)"
  by (rule fold_inv [where I = daemon_ok]) (use assms in \<open>auto intro: daemon_upd\<close>)

definition defaulted :: "Interface \<Rightarrow> Interface" where
  "defaulted i = (setInterfaceDefaults i)\<lparr>Inuse := False\<rparr>"

lemma reload_defaults_upd: "reload_defaults = (\<lambda>p. upd p defaulted)"
  by (simp add: fun_eq_iff reload_defaults_def defaulted_def)

definition disabled_by :: "bool \<Rightarrow> bool \<Rightarrow> bool \<Rightarrow> Interface \<Rightarrow> Interface" where
  "disabled_by d r n i =
     (if \<not> Master i then i
      else i\<lparr>DHCPv6 := if d then DHCPv6 i else ModeDisabled, RA := if r then RA i else ModeDisabled,
             NDP := if n then NDP i else ModeDisabled\<rparr>)"

lemma Mode_not: "m \<noteq> ModeRelay \<longleftrightarrow> m = ModeDisabled" "m \<noteq> ModeDisabled \<longleftrightarrow> m = ModeRelay"
  by (cases m; simp)+

lemma upd_upd: "upd p f (upd p g s) = upd p (\<lambda>i. f (g i)) s"
  by (simp add: upd_def)

lemma upd_if: "(if b then upd p f s else s) = upd p (\<lambda>i. if b then f i else i) s"
  by (simp add: upd_def)

lemma upd_cong: "f (heap s p) = g (heap s p) \<Longrightarrow> upd p f s = upd p g s"
  by (simp add: upd_def)

lemma disable_master_upd: "disable_master d r n = (\<lambda>p. upd p (disabled_by d r n))"
proof (intro ext)
  fix p s
  define D where "D = (\<lambda>i :: Interface. if DHCPv6 i = ModeRelay \<and> \<not> d then i\<lparr>DHCPv6 := ModeDisabled\<rparr> else i)"
  define R where "R = (\<lambda>i :: Interface. if RA i = ModeRelay \<and> \<not> r then i\<lparr>RA := ModeDisabled\<rparr> else i)"
  define N where "N = (\<lambda>i :: Interface. if NDP i = ModeRelay \<and> \<not> n then i\<lparr>NDP := ModeDisabled\<rparr> else i)"
  have e: "(if DHCPv6 (heap t p) = ModeRelay \<and> \<not> d then upd p (\<lambda>i. i\<lparr>DHCPv6 := ModeDisabled\<rparr>) t else t) = upd p D t"
    "(if RA (heap t p) = ModeRelay \<and> \<not> r then upd p (\<lambda>i. i\<lparr>RA := ModeDisabled\<rparr>) t else t) = upd p R t"
    "(if NDP (heap t p) = ModeRelay \<and> \<not> n then upd p (\<lambda>i. i\<lparr>NDP := ModeDisabled\<rparr>) t else t) = upd p N t" for t
    by (unfold upd_if; rule upd_cong; simp add: D_def R_def N_def)+
  have f: "D i = i\<lparr>DHCPv6 := if d then DHCPv6 i else ModeDisabled\<rparr>"
    "R i = i\<lparr>RA := if r then RA i else ModeDisabled\<rparr>" "N i = i\<lparr>NDP := if n then NDP i else ModeDisabled\<rparr>" for i
    by (cases i; simp add: D_def R_def N_def Mode_not)+
  have "disable_master d r n p s = (if \<not> Master (heap s p) then s else upd p N (upd p R (upd p D s)))"
    unfolding disable_master_def Let_def e ..
  also have "\<dots> = upd p (disabled_by d r n) s"
    unfolding upd_upd by (cases "Master (heap s p)") (auto simp: f disabled_by_def intro!: upd_cong simp: upd_def)
  finally show "disable_master d r n p s = upd p (disabled_by d r n) s" .
qed

lemma defaulted_step:
  fixes os :: os
  assumes "daemon_ok s"
  defines "t \<equiv> fold reload_defaults (fst (range_interfaces os s)) (snd (range_interfaces os s))"
  shows "daemon_ok t" "loaded {} t" "cfg_ConfigFile t = cfg_ConfigFile s" "clk t = Suc (clk s)"
    "interfaces t = interfaces s" "Master (heap t q) = Master (heap s q)"
proof -
  have idem: "defaulted (defaulted i) = defaulted i" for i
    by (simp add: defaulted_def setInterfaceDefaults_def)
  have t: "t = (snd (range_interfaces os s))\<lparr>heap := \<lambda>q. if q \<in> registered s then defaulted (heap s q) else heap s q\<rparr>"
    by (simp add: t_def reload_defaults_upd fold_upd [OF idem] registered_def cong: if_cong)
  then show "loaded {} t"
    by (auto simp: loaded_def loaded_one_def relaying_def defaulted_def setInterfaceDefaults_def registered_def
        rev_image_eqI)
  show "cfg_ConfigFile t = cfg_ConfigFile s" "clk t = Suc (clk s)" "interfaces t = interfaces s"
    "Master (heap t q) = Master (heap s q)"
    by (simp_all add: t defaulted_def setInterfaceDefaults_def) (simp add: range_interfaces_def tick_def)
  show "daemon_ok t"
    unfolding t_def reload_defaults_upd
  proof (rule daemon_fold_upd)
    show "sock_of k (defaulted i) = sock_of k i" for k i
      by (rule sock_of_cong) (simp_all add: defaulted_def setInterfaceDefaults_def)
  qed (use assms(1) in \<open>simp_all add: defaulted_def setInterfaceDefaults_def cache_ok_def\<close>)
qed

text \<open>The entries of the configuration a reload gets to see, if it can be read and decoded.\<close>

definition config_read :: "os \<Rightarrow> nat \<Rightarrow> string \<Rightarrow> (string \<times> jsonIface) list option" where
  "config_read os n path =
     (case os_ReadFile os n path of
        Inl _ \<Rightarrow> None
      | Inr data \<Rightarrow> (case os_Unmarshal os data of Inl _ \<Rightarrow> None | Inr root \<Rightarrow> Some (js_Interfaces root)))"

text \<open>The decoder returns a Go map: no name occurs twice.\<close>

definition json_ok :: "os \<Rightarrow> bool" where
  "json_ok os = (\<forall>b root. os_Unmarshal os b = Inr root \<longrightarrow> distinct (map fst (js_Interfaces root)))"

lemma loadConfigJSON_unreadable:
  assumes "config_read os (clk s) path = None"
  obtains m where "loadConfigJSON os path s = Errorf m (tick s)"
  using assms by (auto simp: config_read_def loadConfigJSON_def split: sum.splits)

text \<open>Only the log changes, and not its level when the command line has fixed it.\<close>

lemma load_level_lg:
  "\<exists>l. load_level root s = s\<lparr>lg := l\<rparr> \<and> (cfg_LogLevelCmdline s \<longrightarrow> logLevel l = logLevel (lg s))"
proof -
  have "\<exists>l. s = s\<lparr>lg := l\<rparr> \<and> logLevel l = logLevel (lg s)" by (rule exI [of _ "lg s"]) simp
  then show ?thesis by (auto simp: load_level_def Noticef_def logs_def split: option.split)
qed

lemma loadConfigJSON_readable:
  assumes "config_read os (clk s) path = Some js"
  shows "\<exists>l o'. loadConfigJSON os path s =
    fold (load_iface os) (permute o' js) (s\<lparr>lg := l, clk := Suc (Suc (clk s))\<rparr>) \<and>
    (cfg_LogLevelCmdline s \<longrightarrow> logLevel l = logLevel (lg s))"
proof -
  obtain data root where d: "os_ReadFile os (clk s) path = Inr data" "os_Unmarshal os data = Inr root"
    "js = js_Interfaces root"
    using assms by (auto simp: config_read_def split: sum.splits)
  obtain l where l: "load_level root (tick s) = (tick s)\<lparr>lg := l\<rparr>"
    "cfg_LogLevelCmdline s \<longrightarrow> logLevel l = logLevel (lg s)"
    using load_level_lg [of root "tick s"] by (auto simp: tick_def)
  have "loadConfigJSON os path s = fold (load_iface os) (permute (os_order os (Suc (clk s))) js)
      (s\<lparr>lg := l, clk := Suc (Suc (clk s))\<rparr>)"
    by (simp add: loadConfigJSON_def d l Let_def) (simp add: tick_def)
  with l(2) show ?thesis by blast
qed

lemma loaded_obs:
  "loaded D (s\<lparr>lg := l, clk := n\<rparr>) = loaded D s" "loaded D (Errorf m (tick s)) = loaded D s"
  by (simp_all add: loaded_def)

lemma loadConfigJSON_spec:
  fixes path :: string
  assumes "daemon_ok s" "loaded {} s" "json_ok os"
  defines "t \<equiv> loadConfigJSON os path s"
  shows "daemon_ok t \<and> loaded (case config_read os (clk s) path of None \<Rightarrow> {} | Some js \<Rightarrow> set js) t"
proof (cases "config_read os (clk s) path")
  case None
  then obtain m where "t = Errorf m (tick s)" unfolding t_def by (rule loadConfigJSON_unreadable)
  then show ?thesis using assms(1, 2) None by (simp add: loaded_obs)
next
  case (Some js)
  obtain l o' where t: "t = fold (load_iface os) (permute o' js) (s\<lparr>lg := l, clk := Suc (Suc (clk s))\<rparr>)"
    using loadConfigJSON_readable [OF Some] t_def by blast
  have "distinct (map fst js)"
    using Some assms(3) by (auto simp: config_read_def json_ok_def split: sum.splits)
  then have "distinct (map fst (permute o' js))"
    by (metis mset_map permute_mset mset_eq_imp_distinct_iff)
  from load_all [OF _ _ this, of "s\<lparr>lg := l, clk := Suc (Suc (clk s))\<rparr>" "{}" os] show ?thesis
    using assms(1, 2) by (simp add: t Some loaded_obs daemon_mobs.obs_clk daemon_lg)
qed

text \<open>Switching services of masters off, when nothing is left downstream.\<close>

lemma disabled_step:
  fixes os :: os
  assumes "daemon_ok s" "loaded D s"
  defines "cs \<equiv> fst (range_interfaces os s)" and "u \<equiv> snd (range_interfaces os s)"
  defines "t \<equiv> fold (disable_master (any_slave DHCPv6 cs u) (any_slave RA cs u) (any_slave NDP cs u))
     (fst (range_interfaces os u)) (snd (range_interfaces os u))"
  shows "daemon_ok t" "interfaces t = interfaces s"
    "heap t q = (if q \<in> registered s \<and> Master (heap s q) \<and> (\<forall>p \<in> registered s. Master (heap s p))
       then (heap s q)\<lparr>DHCPv6 := ModeDisabled, RA := ModeDisabled, NDP := ModeDisabled\<rparr> else heap s q)"
proof -
  define a where "a = (\<exists>p \<in> registered s. \<not> Master (heap s p))"
  have rel: "relaying (heap s p)" if "p \<in> registered s" for p
    using that assms(2) by (auto simp: loaded_def loaded_one_def registered_def)
  have "any_slave f cs u = a" if "\<And>p. p \<in> registered s \<Longrightarrow> f (heap s p) = ModeRelay" for f
    using that by (auto simp: any_slave_def cs_def u_def a_def list_ex_iff registered_def)
  then have a: "any_slave DHCPv6 cs u = a" "any_slave RA cs u = a" "any_slave NDP cs u = a"
    using rel by (simp_all add: relaying_def)
  have idem: "disabled_by a a a (disabled_by a a a i) = disabled_by a a a i" for i
    by (simp add: disabled_by_def)
  have t: "t = (snd (range_interfaces os u))
      \<lparr>heap := \<lambda>q. if q \<in> registered s then disabled_by a a a (heap s q) else heap s q\<rparr>"
    unfolding t_def a disable_master_upd fold_upd [OF idem] by (simp add: u_def registered_def cong: if_cong)
  show "interfaces t = interfaces s" by (simp add: t u_def)
  show "heap t q = (if q \<in> registered s \<and> Master (heap s q) \<and> (\<forall>p \<in> registered s. Master (heap s p))
       then (heap s q)\<lparr>DHCPv6 := ModeDisabled, RA := ModeDisabled, NDP := ModeDisabled\<rparr> else heap s q)"
    by (auto simp: t disabled_by_def a_def)
  show "daemon_ok t"
    unfolding t_def a disable_master_upd
  proof (rule daemon_fold_upd)
    show "sock_of k (disabled_by a a a i) = sock_of k i" for k i
      by (rule sock_of_cong) (simp_all add: disabled_by_def)
    show "cache_ok (disabled_by a a a i)" if "cache_ok i" for i
      using that cache_view_cong [of "disabled_by a a a i" i] by (simp add: cache_view_def disabled_by_def)
  qed (use assms(1) in \<open>simp_all add: disabled_by_def u_def\<close>)
qed

definition downgraded :: "st \<Rightarrow> Interface \<Rightarrow> Interface" where
  "downgraded s i = (if Master i \<and> (\<forall>p \<in> registered s. Master (heap s p))
     then i\<lparr>DHCPv6 := ModeDisabled, RA := ModeDisabled, NDP := ModeDisabled\<rparr> else i)"

lemma downgraded_simps [simp]:
  "Inuse (downgraded s i) = Inuse i" "Master (downgraded s i) = Master i" "Ifname (downgraded s i) = Ifname i"
  "Running (downgraded s i) = Running i" "configured_by obj (downgraded s i) = configured_by obj i"
  by (simp_all add: downgraded_def configured_by_def)

text \<open>The state between reading the configuration and applying it, and what applying it does.\<close>

lemma Reload_stages:
  assumes "daemon_ok s" "json_ok os"
  obtains s' u where "u = loadConfigJSON os (cfg_ConfigFile s) s'" "daemon_ok s'" "daemon_ok u"
    "loaded (case config_read os (Suc (clk s)) (cfg_ConfigFile s) of None \<Rightarrow> {} | Some js \<Rightarrow> set js) u"
    "clk s' = Suc (clk s)" "interfaces s' = interfaces s" "\<forall>q. Master (heap s' q) = Master (heap s q)"
    "daemon_ok (Reload os s)" "set (interfaces (Reload os s)) \<subseteq> set (interfaces u)"
    "registered (Reload os s) = {p \<in> registered u. Inuse (heap u p)}"
    "\<forall>q \<in> registered u. config_of (heap (Reload os s) q) = config_of (downgraded u (heap u q))"
    "\<forall>q \<in> registered u. service_ok (Reload os s) q \<and> (willing os \<longrightarrow> service_up (Reload os s) q)"
proof -
  define s1 where "s1 = fold reload_defaults (fst (range_interfaces os s)) (snd (range_interfaces os s))"
  define u where "u = loadConfigJSON os (cfg_ConfigFile s) s1"
  define cs where "cs = fst (range_interfaces os u)"
  define u1 where "u1 = snd (range_interfaces os u)"
  define v where "v = fold (disable_master (any_slave DHCPv6 cs u1) (any_slave RA cs u1) (any_slave NDP cs u1))
     (fst (range_interfaces os u1)) (snd (range_interfaces os u1))"
  define w where "w = snd (range_interfaces os v)"
  note d1 = defaulted_step [OF assms(1), where os = os, folded s1_def]
  have L: "daemon_ok u" "loaded (case config_read os (Suc (clk s)) (cfg_ConfigFile s) of None \<Rightarrow> {} | Some js \<Rightarrow> set js) u"
    using loadConfigJSON_spec [OF d1(1, 2) assms(2), of "cfg_ConfigFile s", folded u_def] d1(4) by simp_all
  note V = disabled_step [OF L, of os, folded cs_def u1_def, folded v_def]
  have R: "Reload os s = fold (reload_iface os) (fst (range_interfaces os v)) w"
    by (simp add: Reload_def Let_def case_prod_beta s1_def u_def d1(3) [unfolded s1_def]
        cs_def u1_def v_def w_def copyIfaceList_def)
  have regv: "registered v = registered u" "registered w = registered u"
    by (simp_all add: registered_def V(2) w_def)
  have hw: "heap w q = (if q \<in> registered u then downgraded u (heap u q) else heap u q)" for q
    by (simp add: w_def V(3) downgraded_def)
  have "distinct (map snd (interfaces v))" using daemonD(1) [OF V(1)] by (simp add: registry_ok_def)
  then have dist: "distinct (fst (range_interfaces os v))"
    by (metis mset_range_interfaces mset_eq_imp_distinct_iff)
  have set: "set (fst (range_interfaces os v)) = registered u" using regv by (simp add: registered_def)
  have dw: "daemon_ok w" using V(1) by (simp add: w_def)
  have "set (fst (range_interfaces os v)) \<subseteq> registered w" using set regv by simp
  note A = reload_all [OF dw this dist, of os, folded R, unfolded set regv]
  show ?thesis
  proof (rule that [OF u_def d1(1) L d1(4, 5)])
    show "set (interfaces (Reload os s)) \<subseteq> set (interfaces u)" using A V(2) by (simp add: w_def)
    show "registered (Reload os s) = {p \<in> registered u. Inuse (heap u p)}" using A by (auto simp: hw)
  qed (use A d1(6) in \<open>auto simp: hw\<close>)
qed

lemma Reload_spec:
  fixes os :: os and s :: st
  assumes "daemon_ok s" "json_ok os"
  defines "t \<equiv> Reload os s"
    and "js \<equiv> case config_read os (Suc (clk s)) (cfg_ConfigFile s) of None \<Rightarrow> {} | Some js \<Rightarrow> set js"
  shows "daemon_ok t \<and>
    (\<forall>(n, p) \<in> set (interfaces t).
       (\<exists>obj. (n, obj) \<in> js \<and> configured_by obj (heap t p)) \<and>
       (relaying (heap t p) \<or>
        (\<forall>k. mode_of k (heap t p) = ModeDisabled) \<and> (\<forall>q \<in> registered t. Master (heap t q)))) \<and>
    (\<forall>p k. has_sock t p k \<longrightarrow> p \<in> registered t \<and> Running (heap t p) \<and> mode_of k (heap t p) = ModeRelay)"
proof -
  obtain u where
    u: "loaded js u" "daemon_ok t" "set (interfaces t) \<subseteq> set (interfaces u)"
      "registered t = {p \<in> registered u. Inuse (heap u p)}"
    and c: "\<And>q. q \<in> registered u \<Longrightarrow> config_of (heap t q) = config_of (downgraded u (heap u q))"
      "\<And>q. q \<in> registered u \<Longrightarrow> service_ok t q"
    unfolding t_def js_def by (rule Reload_stages [OF assms(1, 2)]) blast
  have one: "(\<exists>obj. (n, obj) \<in> js \<and> configured_by obj (heap t p)) \<and>
      (relaying (heap t p) \<or> (\<forall>k. mode_of k (heap t p) = ModeDisabled) \<and> (\<forall>q \<in> registered t. Master (heap t q)))"
    if np: "(n, p) \<in> set (interfaces t)" for n p
  proof -
    have p: "p \<in> registered u" "Inuse (heap u p)" using np u(4) by (force simp: registered_def)+
    have "loaded_one js n (heap u p)" using u(1, 3) np by (auto simp: loaded_def)
    then obtain obj where obj: "(n, obj) \<in> js" "configured_by obj (heap u p)" "relaying (heap u p)"
      using p(2) by (auto simp: loaded_one_def)
    note C = config_ofD [OF c(1) [OF p(1)]]
    have "configured_by obj (heap t p)" using obj(2) configured_config [OF c(1) [OF p(1)]] by simp
    moreover have "Master (heap t q)" if "\<forall>p \<in> registered u. Master (heap u p)" "q \<in> registered t" for q
      using that u(4) config_ofD(5) [OF c(1)] by (metis (no_types, lifting) downgraded_simps(2) mem_Collect_eq)
    moreover have "mode_of k (heap t p) = ModeDisabled" if "\<forall>p \<in> registered u. Master (heap u p)" for k
      using that C p(1) by (cases k) (simp_all add: downgraded_def)
    moreover have "relaying (heap t p)" if "\<not> (\<forall>p \<in> registered u. Master (heap u p))"
      using that C obj(3) by (auto simp: downgraded_def relaying_def)
    ultimately show ?thesis using obj(1) by blast
  qed
  have "p \<in> registered t" if "has_sock t p k" for p k using daemonD(5) [OF u(2), of p k] that by auto
  then have "p \<in> registered t \<and> Running (heap t p) \<and> mode_of k (heap t p) = ModeRelay" if "has_sock t p k" for p k
    using that c(2) [of p] u(4) Mode_not(2) unfolding service_ok_def by blast
  with u(2) one show ?thesis by blast
qed

text \<open>
  C3. \<^verbatim>\<open>Reload\<close> brings the daemon in line with the configuration it reads, whatever the kernel answers
  and in whatever order Go's maps are walked. Every interface it keeps is named in the configuration, has
  the master flag and the interface name its entry gives where the entry gives them, and learns routes
  and sends from its link-local address as the entry says, or does so where the entry is silent (a missing
  master key is the subject of C34). An interface it keeps relays all three services, or none and then
  every interface left is a master. A socket is open only on an interface that is kept, running, and
  relays that service. No channel is closed twice and no closed interface keeps a socket.
\<close>

theorem Reload_correct:
  fixes os :: os and s :: st
  assumes "daemon_ok s" "json_ok os"
  defines "t \<equiv> Reload os s"
    and "js \<equiv> case config_read os (Suc (clk s)) (cfg_ConfigFile s) of None \<Rightarrow> {} | Some js \<Rightarrow> set js"
  shows "daemon_ok t \<and>
    (\<forall>(n, p) \<in> set (interfaces t).
       (\<exists>obj. (n, obj) \<in> js \<and> configured_by obj (heap t p)) \<and>
       (relaying (heap t p) \<or>
        (\<forall>k. mode_of k (heap t p) = ModeDisabled) \<and> (\<forall>q \<in> registered t. Master (heap t q)))) \<and>
    (\<forall>p k. has_sock t p k \<longrightarrow> p \<in> registered t \<and> Running (heap t p) \<and> mode_of k (heap t p) = ModeRelay)"
  unfolding t_def js_def by (rule Reload_spec [OF assms(1, 2)])

section \<open>What a reload keeps\<close>

lemma findOrCreateInterface_frame:
  fixes name :: string
  assumes "daemon_ok s" "(n, p) \<in> set (interfaces s)"
  defines "f \<equiv> findOrCreateInterface name s"
  shows "(n, p) \<in> set (interfaces (snd f))" "heap (snd f) p = heap s p" "fst f = p \<longleftrightarrow> name = n"
proof -
  have r: "p \<noteq> nextPtr s" "map_of (interfaces s) n = Some p"
    using assms(2) daemonD(1) [OF assms(1)] by (auto simp: registry_ok_def)
  have "name = n" if "map_of (interfaces s) name = Some p"
    using registry_unique [OF daemonD(1) [OF assms(1)] map_of_SomeD [OF that] assms(2)] .
  then show "(n, p) \<in> set (interfaces (snd f))" "heap (snd f) p = heap s p" "fst f = p \<longleftrightarrow> name = n"
    using assms(2) r by (auto simp: f_def findOrCreateInterface_def split: option.split)
qed

lemma load_iface_frame:
  fixes os :: os and obj :: jsonIface and name :: string
  assumes "daemon_ok s" "(n, p) \<in> set (interfaces s)"
  defines "t \<equiv> load_iface os (name, obj) s"
  shows "daemon_ok t" "(n, p) \<in> set (interfaces t)" "name \<noteq> n \<Longrightarrow> settings (heap t p) = settings (heap s p)"
    "Inuse (heap s p) \<Longrightarrow> Inuse (heap t p)"
proof -
  note F = findOrCreateInterface_frame [OF assms(1, 2), of name]
  note P = parseInterfaceJSON_spec [OF assms(1), where name = name and os = os and obj = obj]
  have t: "interfaces t = interfaces (snd (findOrCreateInterface name s))"
    "heap t = heap (snd (parseInterfaceJSON os name obj s))"
    using P(2) by (simp_all add: t_def load_iface_def case_prod_beta)
  show "daemon_ok t" using P(1) by (simp add: t_def load_iface_def case_prod_beta)
  show "(n, p) \<in> set (interfaces t)" using F(1) t(1) by simp
  show "settings (heap t p) = settings (heap s p)" if "name \<noteq> n"
    using that P(3) [of p] F(2, 3) t(2) by metis
  show "Inuse (heap t p)" if "Inuse (heap s p)"
  proof (cases "name = n")
    case True
    then have "fst (findOrCreateInterface name s) = p" using F(3) by simp
    then show ?thesis
      using that settingsD(1) [OF P(5)] settingsD(1) [OF P(6)] F(2) t(2)
      by (cases "fst (parseInterfaceJSON os name obj s)") (simp_all add: parse_flags_def)
  next
    case False
    then show ?thesis using that settingsD(1) [OF P(3)] F(2, 3) t(2) by metis
  qed
qed

lemma load_iface_makes:
  assumes "daemon_ok s" "js_Ifname obj = Some n" "\<forall>t. \<exists>l. os_LinkByName os t n = Inr l"
  shows "\<exists>p. (name, p) \<in> set (interfaces (load_iface os (name, obj) s)) \<and>
    Inuse (heap (load_iface os (name, obj) s) p)"
proof -
  note P = parseInterfaceJSON_spec [OF assms(1), where name = name and os = os and obj = obj]
  have e: "fst (parseInterfaceJSON os name obj s) = None" using P(8) [OF assms(2, 3)] .
  let ?p = "fst (findOrCreateInterface name s)"
  have "(name, ?p) \<in> set (interfaces (snd (findOrCreateInterface name s)))"
    using map_of_SomeD findOrCreateInterface_spec(2) [OF assms(1)] by fast
  then show ?thesis
    using settingsD(1) [OF P(6) [OF e]] P(2) e
    by (intro exI [of _ ?p]) (simp add: load_iface_def case_prod_beta parse_flags_def)
qed

lemma load_all_frame:
  assumes "daemon_ok s" "(n, p) \<in> set (interfaces s)"
  shows "daemon_ok (fold (load_iface os) xs s) \<and> (n, p) \<in> set (interfaces (fold (load_iface os) xs s)) \<and>
    (n \<notin> fst ` set xs \<longrightarrow> settings (heap (fold (load_iface os) xs s) p) = settings (heap s p)) \<and>
    (Inuse (heap s p) \<longrightarrow> Inuse (heap (fold (load_iface os) xs s) p))"
  using assms
proof (induction xs arbitrary: s)
  case (Cons x xs)
  obtain m obj where x: "x = (m, obj)" by (cases x)
  note F = load_iface_frame [OF Cons.prems, where os = os and name = m and obj = obj]
  show ?case using Cons.IH [OF F(1, 2)] F(3, 4) by (auto simp: x)
qed simp

lemma load_all_makes:
  assumes "daemon_ok s" "(name, obj) \<in> set xs" "js_Ifname obj = Some n" "\<forall>t. \<exists>l. os_LinkByName os t n = Inr l"
  shows "\<exists>p. (name, p) \<in> set (interfaces (fold (load_iface os) xs s)) \<and> Inuse (heap (fold (load_iface os) xs s) p)"
  using assms(1, 2)
proof (induction xs arbitrary: s)
  case (Cons x xs)
  have d: "daemon_ok (load_iface os x s)"
    using parseInterfaceJSON_spec(1) [OF Cons.prems(1)] by (simp add: load_iface_def case_prod_beta)
  show ?case
  proof (cases "x = (name, obj)")
    case True
    then obtain p where "(name, p) \<in> set (interfaces (load_iface os x s))" "Inuse (heap (load_iface os x s) p)"
      using load_iface_makes [OF Cons.prems(1) assms(3, 4)] by blast
    with load_all_frame [OF d this(1)] show ?thesis by auto
  next
    case False
    with Cons d show ?thesis by auto
  qed
qed simp

lemma Reload_read:
  assumes "daemon_ok s" "json_ok os" "config_read os (Suc (clk s)) (cfg_ConfigFile s) = Some js"
  obtains s' o' u where "daemon_ok s'" "u = fold (load_iface os) (permute o' js) s'" "daemon_ok u"
    "interfaces s' = interfaces s" "\<forall>q. Master (heap s' q) = Master (heap s q)" "loaded (set js) u"
    "set (interfaces (Reload os s)) \<subseteq> set (interfaces u)"
    "registered (Reload os s) = {p \<in> registered u. Inuse (heap u p)}"
    "\<forall>q \<in> registered u. config_of (heap (Reload os s) q) = config_of (downgraded u (heap u q))"
proof -
  obtain s' u where u: "u = loadConfigJSON os (cfg_ConfigFile s) s'" "daemon_ok s'" "clk s' = Suc (clk s)"
    and R: "daemon_ok u" "interfaces s' = interfaces s" "\<forall>q. Master (heap s' q) = Master (heap s q)"
    "loaded (set js) u" "set (interfaces (Reload os s)) \<subseteq> set (interfaces u)"
    "registered (Reload os s) = {p \<in> registered u. Inuse (heap u p)}"
    "\<forall>q \<in> registered u. config_of (heap (Reload os s) q) = config_of (downgraded u (heap u q))"
    by (rule Reload_stages [OF assms(1, 2)]) (simp add: assms(3))
  have "config_read os (clk s') (cfg_ConfigFile s) = Some js" using assms(3) u(3) by simp
  from loadConfigJSON_readable [OF this] obtain l o' where
    f: "u = fold (load_iface os) (permute o' js) (s'\<lparr>lg := l, clk := Suc (Suc (clk s'))\<rparr>)"
    using u(1) by blast
  show ?thesis
    by (rule that [OF _ f R(1) _ _ R(4-7)])
      (use u(2) R(2, 3) in \<open>simp_all add: daemon_mobs.obs_clk daemon_lg\<close>)
qed

text \<open>
  C31. No configured interface is lost: if the configuration can be read and the kernel knows the link an
  entry names, the interface of that entry is registered after \<^verbatim>\<open>Reload\<close>, whether or not it is running.
\<close>

theorem Reload_keeps:
  assumes "daemon_ok s" "json_ok os" "config_read os (Suc (clk s)) (cfg_ConfigFile s) = Some js"
    and "(name, obj) \<in> set js" "js_Ifname obj = Some n" "\<forall>t. \<exists>l. os_LinkByName os t n = Inr l"
  shows "name \<in> fst ` set (interfaces (Reload os s))"
proof -
  obtain s' o' u where u: "daemon_ok s'" "u = fold (load_iface os) (permute o' js) s'" "daemon_ok u"
    "set (interfaces (Reload os s)) \<subseteq> set (interfaces u)"
    "registered (Reload os s) = {p \<in> registered u. Inuse (heap u p)}"
    by (rule Reload_read [OF assms(1-3)]) blast
  have "(name, obj) \<in> set (permute o' js)" using assms(4) by simp
  from load_all_makes [OF u(1) this assms(5, 6)] obtain p where p: "(name, p) \<in> set (interfaces u)" "Inuse (heap u p)"
    using u(2) by blast
  then have "p \<in> registered (Reload os s)" using u(5) by (force simp: registered_def)
  then obtain m where m: "(m, p) \<in> set (interfaces (Reload os s))" by (auto simp: registered_def)
  then have "m = name" using registry_unique [OF daemonD(1) [OF u(3)]] u(4) p(1) by blast
  with m show ?thesis by force
qed

text \<open>
  C10. When nothing fails, \<^verbatim>\<open>Reload\<close> leaves exactly the wanted sockets open: a service of an object has a
  socket if and only if the object is registered, its link is running and it relays that service.
\<close>

theorem Reload_starts:
  assumes "daemon_ok s" "json_ok os" "willing os"
  shows "has_sock (Reload os s) p k \<longleftrightarrow>
    p \<in> registered (Reload os s) \<and> Running (heap (Reload os s) p) \<and> mode_of k (heap (Reload os s) p) = ModeRelay"
proof -
  obtain u where u: "daemon_ok (Reload os s)" "registered (Reload os s) = {p \<in> registered u. Inuse (heap u p)}"
    "\<forall>q \<in> registered u. config_of (heap (Reload os s) q) = config_of (downgraded u (heap u q))"
    "\<forall>q \<in> registered u. service_ok (Reload os s) q \<and> (willing os \<longrightarrow> service_up (Reload os s) q)"
    by (rule Reload_stages [OF assms(1, 2)]) blast
  have "Inuse (heap (Reload os s) p)" if "p \<in> registered (Reload os s)"
    using that u(2, 3) config_ofD(8) by (metis (no_types, lifting) downgraded_simps(1) mem_Collect_eq)
  moreover have "p \<in> registered (Reload os s)" if "has_sock (Reload os s) p k"
    using daemonD(5) [OF u(1), of p k] that by blast
  ultimately show ?thesis
    using u(2, 4) assms(3) Mode_not(2) unfolding service_ok_def service_up_def by blast
qed

text \<open>
  C32. A configuration that cannot be read or decoded makes \<^verbatim>\<open>Reload\<close> close every interface: none is left
  registered and no socket is left open.
\<close>

theorem Reload_unreadable:
  assumes "daemon_ok s" "json_ok os" "config_read os (Suc (clk s)) (cfg_ConfigFile s) = None"
  shows "interfaces (Reload os s) = [] \<and> (\<forall>p k. \<not> has_sock (Reload os s) p k)"
proof -
  obtain u where u: "loaded {} u" "daemon_ok (Reload os s)"
    "registered (Reload os s) = {p \<in> registered u. Inuse (heap u p)}"
    by (rule Reload_stages [OF assms(1, 2)]) (simp add: assms(3))
  have "\<not> Inuse (heap u p)" if "p \<in> registered u" for p
    using that u(1) by (force simp: registered_def loaded_def loaded_one_def)
  then have "registered (Reload os s) = {}" using u(3) by blast
  then show ?thesis using daemonD(5) [OF u(2)] by (simp add: registered_def)
qed

text \<open>
  C33. The rule that a master without a downstream interface stops relaying is not applied while a
  removed downstream interface is being closed: if the reloaded configuration no longer names an
  interface that was not a master, every interface that is kept, masters too, goes on relaying, although
  that interface is gone afterwards.
\<close>

theorem Reload_counts_removed_slave:
  assumes "daemon_ok s" "json_ok os" "config_read os (Suc (clk s)) (cfg_ConfigFile s) = Some js"
    and "(n, p) \<in> set (interfaces s)" "\<not> Master (heap s p)" "n \<notin> fst ` set js"
  shows "p \<notin> registered (Reload os s) \<and> (\<forall>q \<in> registered (Reload os s). relaying (heap (Reload os s) q))"
proof -
  obtain s' o' u where u: "daemon_ok s'" "u = fold (load_iface os) (permute o' js) s'" "daemon_ok u"
    "interfaces s' = interfaces s" "\<forall>q. Master (heap s' q) = Master (heap s q)" "loaded (set js) u"
    "registered (Reload os s) = {p \<in> registered u. Inuse (heap u p)}"
    "\<forall>q \<in> registered u. config_of (heap (Reload os s) q) = config_of (downgraded u (heap u q))"
    by (rule Reload_read [OF assms(1-3)]) blast
  have "(n, p) \<in> set (interfaces s')" using assms(4) u(4) by simp
  note F = load_all_frame [OF u(1) this, where os = os and xs = "permute o' js", folded u(2)]
  have S: "settings (heap u p) = settings (heap s' p)" using F assms(6) by simp
  have p: "(n, p) \<in> set (interfaces u)" "\<not> Master (heap u p)"
    using F assms(5) u(5) settingsD(2) [OF S] by simp_all
  have "\<not> Inuse (heap u p)" using u(6) p(1) assms(6) by (force simp: loaded_def loaded_one_def)
  moreover have "relaying (heap (Reload os s) q)" if "q \<in> registered (Reload os s)" for q
  proof -
    have q: "q \<in> registered u" "relaying (heap u q)"
      using that u(6, 7) by (auto simp: loaded_def loaded_one_def registered_def)
    have "downgraded u (heap u q) = heap u q" using p by (force simp: downgraded_def registered_def)
    then show ?thesis
      using q config_ofD(11-13) u(8) unfolding relaying_def by metis
  qed
  ultimately show ?thesis using u(7) by blast
qed

text \<open>An entry without the master key leaves the flag of its object alone.\<close>

lemma load_iface_master:
  fixes os :: os
  assumes "daemon_ok s" "(n, p) \<in> set (interfaces s)" "name = n \<Longrightarrow> js_Master obj = None"
  shows "Master (heap (load_iface os (name, obj) s) p) = Master (heap s p)"
proof -
  note F = findOrCreateInterface_frame [OF assms(1, 2), of name]
  note P = parseInterfaceJSON_spec [OF assms(1), where name = name and os = os and obj = obj]
  have t: "heap (load_iface os (name, obj) s) = heap (snd (parseInterfaceJSON os name obj s))"
    by (simp add: load_iface_def case_prod_beta)
  show ?thesis
  proof (cases "name = n")
    case True
    then have "fst (findOrCreateInterface name s) = p" using F(3) by simp
    then show ?thesis
      using settingsD(2) [OF P(5)] settingsD(2) [OF P(6)] F(2) t assms(3) [OF True]
      by (cases "fst (parseInterfaceJSON os name obj s)") (simp_all add: parse_flags_def)
  next
    case False
    then have "p \<noteq> fst (findOrCreateInterface name s)" using F(3) by metis
    from settingsD(2) [OF P(3) [OF this]] show ?thesis using F(2) t by simp
  qed
qed

lemma load_all_master:
  assumes "daemon_ok s" "(n, p) \<in> set (interfaces s)" "\<forall>obj. (n, obj) \<in> set xs \<longrightarrow> js_Master obj = None"
  shows "Master (heap (fold (load_iface os) xs s) p) = Master (heap s p)"
  using assms
proof (induction xs arbitrary: s)
  case (Cons x xs)
  obtain m obj where x: "x = (m, obj)" by (cases x)
  note F = load_iface_frame [OF Cons.prems(1, 2), where os = os and name = m and obj = obj]
  have "m = n \<Longrightarrow> (n, obj) \<in> set (x # xs)" by (simp add: x)
  then have "m = n \<Longrightarrow> js_Master obj = None" using Cons.prems(3) by blast
  from load_iface_master [OF Cons.prems(1, 2) this] have "Master (heap (load_iface os x s) p) = Master (heap s p)"
    by (simp only: x)
  moreover have "\<forall>obj. (n, obj) \<in> set xs \<longrightarrow> js_Master obj = None" using Cons.prems(3) by (meson list.set_intros(2))
  ultimately show ?case using Cons.IH [of "load_iface os x s"] F(1, 2) by (simp only: x fold_simps)
qed simp

text \<open>
  C34. The master flag is not reset by a reload: if the configuration that is read has no master key for an
  interface, the interface keeps the flag it had, although the documented default is false.
\<close>

theorem Reload_master_sticks:
  assumes "daemon_ok s" "json_ok os" "config_read os (Suc (clk s)) (cfg_ConfigFile s) = Some js"
    and "(n, p) \<in> set (interfaces s)" "\<forall>obj. (n, obj) \<in> set js \<longrightarrow> js_Master obj = None"
  shows "Master (heap (Reload os s) p) = Master (heap s p)"
proof -
  obtain s' o' u where u: "daemon_ok s'" "u = fold (load_iface os) (permute o' js) s'"
    "interfaces s' = interfaces s" "\<forall>q. Master (heap s' q) = Master (heap s q)"
    "\<forall>q \<in> registered u. config_of (heap (Reload os s) q) = config_of (downgraded u (heap u q))"
    by (rule Reload_read [OF assms(1-3)]) blast
  have p: "(n, p) \<in> set (interfaces s')" using assms(4) u(3) by simp
  have "Master (heap u p) = Master (heap s p)"
    using load_all_master [OF u(1) p, of "permute o' js" os] u(2, 4) assms(5) by (metis permute_set)
  moreover have "p \<in> registered u"
    using load_all_frame [OF u(1) p, where os = os and xs = "permute o' js"] u(2) by (force simp: registered_def)
  ultimately show ?thesis using config_ofD(5) u(5) by (metis downgraded_simps(2))
qed

section \<open>Lifetimes and addresses\<close>

text \<open>
  The end of a lifetime of \<open>lft\<close> seconds that starts at \<open>now\<close>, as an integer: the code reads it as an
  unsigned 32-bit number, 0 stands for no end, and the largest value for every end beyond it.
\<close>

definition lifetime_end :: "int \<Rightarrow> int \<Rightarrow> int" where
  "lifetime_end lft now =
     (let l = lft mod 2 ^ 32
      in if lft < 0 \<or> l = 2 ^ 32 - 1 then 0 else min (l + now) (2 ^ 32 - 1))"

lemma lifetimeAbs_end: "uint (lifetimeAbs lft now) = lifetime_end lft (uint now)"
proof (cases "lft < 0")
  case False
  let ?l = "word_of_int lft :: u32"
  have l: "uint ?l = lft mod 2 ^ 32" by (simp add: uint_word_of_int)
  have f: "?l = 0xffffffff \<longleftrightarrow> lft mod 2 ^ 32 = 2 ^ 32 - 1" using l by (simp add: word_uint_eq_iff)
  have n: "0 \<le> uint now" "uint now < 2 ^ 32" using uint_lt2p [of now] by simp_all
  have b: "0 \<le> lft mod 2 ^ 32" "lft mod 2 ^ 32 < 2 ^ 32" by simp_all
  have s: "uint (0xffffffff - now) = 2 ^ 32 - 1 - uint now" using n by (simp add: uint_sub_if')
  show ?thesis
    using False f l n b by (auto simp: lifetimeAbs_def lifetime_end_def Let_def word_less_def s uint_plus_if')
qed (simp add: lifetimeAbs_def lifetime_end_def)

text \<open>
  C38. \<^verbatim>\<open>lifetimeAbs\<close>, for every lifetime the netlink library can return and every clock value: the lifetime
  is taken modulo 2^32 (the conversion to 32 bits); a negative lifetime, and one that then is the forever
  value 2^32 - 1, becomes 0, the daemon's infinite; every other one becomes the absolute second at which it
  ends, saturated at 2^32 - 1: the addition never wraps around.
\<close>

theorem lifetimeAbs_correct:
  "uint (lifetimeAbs lft now) =
    (if lft < 0 \<or> lft mod 2 ^ 32 = 2 ^ 32 - 1 then 0
     else min (lft mod 2 ^ 32 + uint now) (2 ^ 32 - 1))"
  using lifetimeAbs_end [of lft now] by (simp only: lifetime_end_def Let_def)

text \<open>
  What the kernel reports for an interface at this moment: nothing if one of the two queries fails, and
  otherwise its addresses, without those that are not four or sixteen bytes long.
\<close>

definition kernel_addrs :: "os \<Rightarrow> int \<Rightarrow> st \<Rightarrow> kaddr list" where
  "kernel_addrs os ifindex s =
     (case os_LinkByIndex os (clk s) ifindex of
        Inl _ \<Rightarrow> []
      | Inr l \<Rightarrow> (case os_AddrList os (Suc (clk s)) (lk_Index l) of
            Inl _ \<Rightarrow> [] | Inr ks \<Rightarrow> filter (\<lambda>k. length (ka_IP k) \<in> {4, 16}) ks))"

text \<open>The daemon's record of a kernel address: its bytes, prefix length, ends of lifetime, tentative bit.\<close>

definition represents :: "int \<Rightarrow> kaddr \<Rightarrow> IPAddr \<Rightarrow> bool" where
  "represents now k a =
     (isValid (Addr a) \<and> as16 (Addr a) = ip_To16 (ka_IP k) \<and> \<not> is4In6 (Addr a) \<and>
      PrefixLen a = of_nat (fst (mask_size (ka_Mask k))) \<and>
      uint (PreferredLT a) = lifetime_end (ka_PreferedLft k) now \<and>
      uint (ValidLT a) = lifetime_end (ka_ValidLft k) now \<and>
      Tentative a = bit (ka_Flags k) 6)"

lemma AND_64: "(n AND 64 \<noteq> 0) = bit (n :: int) 6"
proof -
  have 64: "(64 :: int) = push_bit 6 1" by (simp add: push_bit_eq_mult)
  have b: "bit (64 :: int) k = (k = 6)" for k
    unfolding 64 by (simp only: bit_push_bit_iff_int bit_1_iff) auto
  have "(n AND 64 \<noteq> 0) = (\<exists>k. bit n k \<and> bit (64 :: int) k)" by (simp add: bit_eq_iff bit_and_iff)
  then show ?thesis by (simp only: b) simp
qed

lemma fetch_one_represents:
  "list_all2 (represents (uint now)) (if length (ka_IP k) \<in> {4, 16} then [k] else []) (fetch_one now k)"
proof (cases "length (ka_IP k) \<in> {4, 16}")
  case True
  let ?ip = "ip_To16 (ka_IP k)"
  have l: "length ?ip = 16" using True by (auto simp: ip_To16_def)
  have "as16 (unmap (V6 ?ip)) = ?ip" using l as16_unmap [of "V6 ?ip"] by (simp del: unmap.simps)
  moreover have "isValid (unmap (V6 ?ip))" "\<not> is4In6 (unmap (V6 ?ip))" by (simp_all add: isValid_def)
  ultimately show ?thesis
    using True l
    by (simp add: fetch_one_def addrFromSlice_def represents_def lifetimeAbs_end AND_64 del: unmap.simps)
next
  case False
  then show ?thesis by (auto simp: fetch_one_def ip_To16_def addrFromSlice_def)
qed

lemma fetch_all_represents:
  "list_all2 (represents (uint now)) (filter (\<lambda>k. length (ka_IP k) \<in> {4, 16}) ks)
     (concat (map (fetch_one now) ks))"
proof (induction ks)
  case (Cons k ks)
  from list_all2_appendI [OF fetch_one_represents [of now k] Cons.IH] show ?case by (auto split: if_splits)
qed simp

lemma fetchAddr6_represents:
  "list_all2 (represents (uint (word_of_int (fst (nowMono os (tick (tick s)))) :: u32)))
     (kernel_addrs os i s) (fst (fetchAddr6 os i s))"
  using fetch_all_represents
  by (auto simp: kernel_addrs_def fetchAddr6_def case_prod_beta tick_def split: sum.split)

text \<open>
  C37. \<^verbatim>\<open>refreshInterfaceAddresses\<close> replaces the address list of the interface by what the kernel reports: one
  record per reported address, in order, with its bytes (an IPv4-mapped address as IPv4), prefix length,
  absolute lifetimes by the monotonic clock and tentative bit; if one of the two queries fails the list
  is emptied. \<^verbatim>\<open>HaveLinkLocal\<close> says whether the list has a link-local address, and the link-local cache
  cannot serve an older one: \<^verbatim>\<open>getLinkLocalAddr\<close> answers with a usable link-local address of the new list,
  or with nothing exactly if the list has none. Nothing else of the interface, of another interface or of
  the daemon changes, and no call that changes anything outside is made.
\<close>

theorem refreshInterfaceAddresses_correct:
  fixes os :: os and p :: ptr and s :: st
  defines "t \<equiv> refreshInterfaceAddresses os p s"
    and "now \<equiv> word_of_int (fst (nowMono os (tick (tick s)))) :: u32"
  defines "as \<equiv> Addr6 (heap t p)"
  defines "lls \<equiv> {Addr a | a. a \<in> set as \<and> \<not> Tentative a \<and> is6 (Addr a) \<and> isLinkLocalUnicast (Addr a)}"
  shows "list_all2 (represents (uint now)) (kernel_addrs os (Ifindex (heap s p)) s) as \<and>
    HaveLinkLocal (heap t p) = (\<exists>a \<in> set as. isLinkLocalUnicast (Addr a)) \<and>
    (case fst (getLinkLocalAddr p t) of None \<Rightarrow> lls = {} | Some a \<Rightarrow> a \<in> lls) \<and>
    own_state t = (own_state s)\<lparr>heap := (heap s)(p := heap t p)\<rparr> \<and>
    noaddr (heap t p) = noaddr (heap s p) \<and> trace t = trace s"
proof -
  have a: "as = fst (fetchAddr6 os (Ifindex (heap s p)) s)" by (simp add: t_def as_def)
  have h: "HaveLinkLocal (heap t p) = (\<exists>a \<in> set as. isLinkLocalUnicast (Addr a))"
    by (simp add: t_def a refreshInterfaceAddresses_def case_prod_beta updateLinkLocalState_def list_ex_iff)
  have c: "cache_ok (heap t p)" by (simp add: t_def cache_ok_def)
  have "ll_addrs (heap t p) = lls" by (simp add: ll_addrs_def lls_def as_def)
  then have l: "case fst (getLinkLocalAddr p t) of None \<Rightarrow> lls = {} | Some a \<Rightarrow> a \<in> lls"
    using getLinkLocalAddr_correct(1) [OF c] by metis
  obtain as' u where f: "fetchAddr6 os (Ifindex (heap s p)) s = (as', u)" by (cases "fetchAddr6 os (Ifindex (heap s p)) s")
  have u: "own_state u = own_state s" "trace u = trace s"
    using f own_obs.obs_fetchAddr6 [of os "Ifindex (heap s p)" s]
    by (auto simp: fetchAddr6_def case_prod_beta split: sum.splits)
  have o': "own_state (x\<lparr>heap := h\<rparr>) = (own_state x)\<lparr>heap := h\<rparr>" for x h by (simp add: own_state_def)
  have t: "t = u\<lparr>heap := (heap s)(p := heap t p)\<rparr>"
    using own_stateD(1) [OF u(1)] by (simp add: t_def refreshInterfaceAddresses_def f upd_def)
  have "own_state t = (own_state s)\<lparr>heap := (heap s)(p := heap t p)\<rparr>"
    by (subst t) (simp only: o' u(1))
  moreover have "trace t = trace s" by (subst t) (simp add: u(2))
  ultimately have "own_state t = (own_state s)\<lparr>heap := (heap s)(p := heap t p)\<rparr>" "trace t = trace s" by blast+
  then show ?thesis
    using h l fetchAddr6_represents [of os s "Ifindex (heap s p)"] refresh_noaddr [of os p s p]
    by (simp add: a now_def t_def)
qed

section \<open>Shutting services down\<close>

text \<open>The descriptors the sockets of an interface hold, in the order in which they are closed.\<close>

definition held_fds :: "Interface \<Rightarrow> int list" where
  "held_fds i =
     (case router i of None \<Rightarrow> [] | Some r \<Rightarrow> [rs_fd r]) @ (case dhcp i of None \<Rightarrow> [] | Some d \<Rightarrow> [ds_fd d]) @
     (case ndp i of None \<Rightarrow> [] | Some n \<Rightarrow> [ns_fd n, ns_pingFd n])"

lemma calls_closeFD [simp]: "calls (trace (closeFD os fd s)) = calls (trace s) @ (if 0 \<le> fd then [CloseFd fd] else [])"
  by (simp add: closeFD_def)

lemma close_chan_timers [simp]: "timers (close_chan c s) = timers s" "heap (close_chan c s) = heap s"
  by (simp_all add: close_chan_def)

lemma router_off:
  fixes os p s
  defines "t \<equiv> snd (routerSetup os p False s)"
  shows "timers t = filter (\<lambda>x. rsTimer (heap s p) \<noteq> Some (fst x)) (timers s)"
    "calls (trace t) = calls (trace s) @ map CloseFd (filter ((\<le>) 0) (case router (heap s p) of None \<Rightarrow> [] | Some r \<Rightarrow> [rs_fd r]))"
    "dhcp (heap t p) = dhcp (heap s p)" "ndp (heap t p) = ndp (heap s p)" "rsTimer (heap t p) = None"
    "Ifname (heap t p) = Ifname (heap s p)"
  by (auto simp: t_def routerSetup_def router_teardown_def stop_rsTimer_def timer_Stop_def Let_def
      intro: filter_cong split: option.split)

lemma dhcp_off:
  fixes os p s
  defines "t \<equiv> snd (dhcpv6Setup os p False s)"
  shows "timers t = timers s"
    "calls (trace t) = calls (trace s) @ map CloseFd (filter ((\<le>) 0) (case dhcp (heap s p) of None \<Rightarrow> [] | Some d \<Rightarrow> [ds_fd d]))"
    "ndp (heap t p) = ndp (heap s p)" "rsTimer (heap t p) = rsTimer (heap s p)"
    "Ifname (heap t p) = Ifname (heap s p)"
  by (auto simp: t_def dhcpv6Setup_def dhcp_teardown_def Let_def split: option.split)

lemma ndp_off:
  fixes os p s
  defines "t \<equiv> snd (ndpSetup os p False s)"
  shows "timers t = timers s" "rsTimer (heap t p) = rsTimer (heap s p)"
    "\<exists>w \<in> {[], [WriteFile (proxy_ndp_path (Ifname (heap s p))) [48, 10]]}. calls (trace t) = calls (trace s) @
       map CloseFd (filter ((\<le>) 0) (case ndp (heap s p) of None \<Rightarrow> [] | Some n \<Rightarrow> [ns_fd n, ns_pingFd n])) @ w"
  by (auto simp: t_def ndpSetup_def ndp_teardown_def setProxyNDP_def Let_def split: option.split sum.split)

text \<open>
  C30. \<^verbatim>\<open>disableServices\<close> shuts the services of its interface down, whatever the kernel answers: it closes
  every descriptor its sockets hold, each exactly once, makes no other call than possibly clearing the
  interface's proxy_ndp setting, and takes its solicitation timer, and no other, off the armed timers.
  Afterwards the interface has no socket and no timer; the sockets of every other interface and the
  configuration of all of them are as they were, no channel was closed twice, and the daemon's
  invariant holds.
\<close>

theorem disableServices_correct:
  fixes os :: os and p :: ptr and s :: st
  assumes "daemon_ok s"
  defines "t \<equiv> disableServices os p s"
  shows "daemon_ok t \<and> (\<forall>q k. has_sock t q k \<longleftrightarrow> q \<noteq> p \<and> has_sock s q k) \<and>
    rsTimer (heap t p) = None \<and> (\<forall>q. config_of (heap t q) = config_of (heap s q)) \<and>
    timers t = filter (\<lambda>x. rsTimer (heap s p) \<noteq> Some (fst x)) (timers s) \<and>
    (\<exists>w \<in> {[], [WriteFile (proxy_ndp_path (Ifname (heap s p))) [48, 10]]}.
       calls (trace t) = calls (trace s) @ map CloseFd (filter ((\<le>) 0) (held_fds (heap s p))) @ w)"
proof -
  let ?r = "snd (routerSetup os p False s)"
  let ?d = "snd (dhcpv6Setup os p False ?r)"
  have t: "t = snd (ndpSetup os p False ?d)" by (simp add: t_def disableServices_def)
  have "timers t = filter (\<lambda>x. rsTimer (heap s p) \<noteq> Some (fst x)) (timers s)" "rsTimer (heap t p) = None"
    by (simp_all add: t ndp_off(1,2) dhcp_off(1,4) router_off(1,5))
  moreover have "\<exists>w \<in> {[], [WriteFile (proxy_ndp_path (Ifname (heap s p))) [48, 10]]}.
       calls (trace t) = calls (trace s) @ map CloseFd (filter ((\<le>) 0) (held_fds (heap s p))) @ w"
    using ndp_off(3) [where p = p and s = ?d and os = os] by (simp add: t held_fds_def dhcp_off(2,3,5) router_off(2,3,4,6))
  ultimately show ?thesis
    using daemon_disable [OF assms(1)] by (simp add: t_def disableServices_socks)
qed

section \<open>The concrete state\<close>

lemma demo_sock_of:
  "sock_of k demo_wan =
   (case k of RouterSvc \<Rightarrow> Some (0, [3], 0) | DhcpSvc \<Rightarrow> Some (1, [4], 0) | NdpSvc \<Rightarrow> Some (2, [5, 6], 0))"
  "sock_of k demo_lan =
   (case k of RouterSvc \<Rightarrow> Some (3, [7], 1) | DhcpSvc \<Rightarrow> Some (4, [8], 1) | NdpSvc \<Rightarrow> Some (5, [9, 10], 1))"
  "sock_of k zeroInterface = None"
  by (cases k; simp add: demo_defs)+

lemma demo_daemon: "daemon_ok demo_st"
proof -
  have "registry_ok demo_st" by (simp add: registry_ok_def demo_defs)
  moreover have "a_inv (socket_table demo_st)"
    unfolding a_inv_def socket_table_def
    by (auto simp: demo_sock_of demo_st_def st_init_def split: if_splits svc.splits)
  moreover have "socks (socket_table demo_st) (p, k) = None" if "p \<notin> registered demo_st" for p k
    using that by (auto simp: socket_table_def demo_sock_of registered_def)
  moreover have "caches_ok demo_st" by (simp add: caches_ok_def cache_ok_def demo_defs)
  ultimately show ?thesis by (simp add: daemon_ok_def sockets_ok_def)
qed

lemma demo_json_ok: "json_ok demo_os"
  by (simp add: json_ok_def demo_json_def)

lemma demo_willing: "willing demo_os"
  by (simp add: willing_def)

lemma demo_config_read: "config_read demo_os n path = Some (js_Interfaces demo_json)"
  by (simp add: config_read_def)

text \<open>C3 on the two-interface state: only the two configured names are left.\<close>

theorem Reload_correct_witness:
  "daemon_ok (Reload demo_os demo_st) \<and> fst ` set (interfaces (Reload demo_os demo_st)) \<subseteq> {''lan'', ''wan''}"
  using Reload_correct [OF demo_daemon demo_json_ok]
  by (auto simp: demo_config_read demo_json_def)

text \<open>C31 for the downstream entry of the demo configuration.\<close>

theorem Reload_keeps_witness: "''lan'' \<in> fst ` set (interfaces (Reload demo_os demo_st))"
  by (rule Reload_keeps [OF demo_daemon demo_json_ok demo_config_read, where obj = "snd (hd (js_Interfaces demo_json))"
        and n = "''eth1''"]) (simp_all add: demo_json_def demo_os_def)

theorem Reload_starts_witness:
  "has_sock (Reload demo_os demo_st) 1 RouterSvc \<longleftrightarrow>
   1 \<in> registered (Reload demo_os demo_st) \<and> Running (heap (Reload demo_os demo_st) 1) \<and>
   mode_of RouterSvc (heap (Reload demo_os demo_st) 1) = ModeRelay"
  by (rule Reload_starts [OF demo_daemon demo_json_ok demo_willing])

text \<open>C32 when the file cannot be read.\<close>

theorem Reload_unreadable_witness:
  "interfaces (Reload (demo_os\<lparr>os_ReadFile := \<lambda>_ _. Inl ENOENT\<rparr>) demo_st) = []"
proof -
  have "json_ok (demo_os\<lparr>os_ReadFile := \<lambda>_ _. Inl ENOENT\<rparr>)"
    using demo_json_ok by (simp add: json_ok_def)
  from Reload_unreadable [OF demo_daemon this] show ?thesis by (simp add: config_read_def)
qed

text \<open>C33 when the new configuration names the upstream interface only.\<close>

definition wan_only :: os where
  "wan_only = demo_os\<lparr>os_Unmarshal := \<lambda>_. Inr (demo_json\<lparr>js_Interfaces := tl (js_Interfaces demo_json)\<rparr>)\<rparr>"

theorem Reload_counts_removed_slave_witness:
  "1 \<notin> registered (Reload wan_only demo_st) \<and>
   {q \<in> registered (Reload wan_only demo_st). \<not> relaying (heap (Reload wan_only demo_st) q)} = {}"
proof -
  have "json_ok wan_only" by (simp add: json_ok_def wan_only_def demo_json_def)
  moreover have "config_read wan_only (Suc (clk demo_st)) (cfg_ConfigFile demo_st) = Some (tl (js_Interfaces demo_json))"
    by (simp add: config_read_def wan_only_def)
  moreover have "(''lan'', 1) \<in> set (interfaces demo_st)" "\<not> Master (heap demo_st 1)" "''lan'' \<notin> fst ` set (tl (js_Interfaces demo_json))"
    by (simp_all add: demo_json_def demo_defs)
  ultimately show ?thesis using Reload_counts_removed_slave [OF demo_daemon] by blast
qed

text \<open>C30 at the upstream interface of the concrete state: its four descriptors are closed.\<close>

theorem disableServices_correct_witness:
  "has_sock (disableServices demo_os 0 demo_st) 1 RouterSvc \<and> \<not> has_sock (disableServices demo_os 0 demo_st) 0 RouterSvc \<and>
   take 4 (calls (trace (disableServices demo_os 0 demo_st))) = [CloseFd 3, CloseFd 4, CloseFd 5, CloseFd 6]"
proof -
  have "has_sock demo_st 1 RouterSvc" by (simp add: socket_table_def demo_sock_of del: sock_of.simps)
  moreover have "held_fds demo_wan = [3, 4, 5, 6]" by (simp add: held_fds_def demo_wan_def)
  ultimately show ?thesis
    using disableServices_correct [OF demo_daemon, of demo_os 0] by auto
qed

text \<open>The upstream interface after its entry has lost the master key.\<close>

definition no_master :: os where
  "no_master = demo_os\<lparr>os_Unmarshal := \<lambda>_. Inr (demo_json\<lparr>js_Interfaces :=
     [(''wan'', \<lparr>js_Ifname = Some ''eth0'', js_Master = None, js_NdproxyRouting = None, js_NdpFromLinkLocal = None\<rparr>)]\<rparr>)\<rparr>"

theorem Reload_master_sticks_witness: "Master (heap (Reload no_master demo_st) 0)"
proof -
  have "json_ok no_master" by (simp add: json_ok_def no_master_def)
  moreover have "config_read no_master (Suc (clk demo_st)) (cfg_ConfigFile demo_st) = Some
     [(''wan'', \<lparr>js_Ifname = Some ''eth0'', js_Master = None, js_NdproxyRouting = None, js_NdpFromLinkLocal = None\<rparr>)]"
    by (simp add: config_read_def no_master_def)
  moreover have "(''wan'', 0) \<in> set (interfaces demo_st)" "Master (heap demo_st 0)" by (simp_all add: demo_defs)
  ultimately show ?thesis using Reload_master_sticks [OF demo_daemon, of no_master _ "''wan''" 0] by simp
qed

end
