(* ===== verification/Netlink.thy ===== *)
theory Netlink
  imports Config
begin

text \<open>
  The event-driven half of \<^verbatim>\<open>netlink.go\<close>: the handlers of link, address, neighbour and route events, the
  debounced reconciliation and the periodic sweep. An event is the part of the netlink library's update
  the handler reads.
\<close>

section \<open>Events\<close>

record linkUpdate =
  lu_Name :: string
  lu_Type :: int
  lu_Index :: int
  lu_Flags :: int

record addrUpdate =
  au_IP :: bytes
  au_LinkIndex :: int
  au_NewAddr :: bool

record neighUpdate =
  nu_Type :: int
  nu_Neigh :: neigh

record routeUpdate =
  ru_Type :: int
  ru_Route :: route

abbreviation mirrorSweepInterval :: nat where "mirrorSweepInterval \<equiv> 300000"
abbreviation reconcileDebounce :: nat where "reconcileDebounce \<equiv> 2000"

section \<open>Links\<close>

definition handleLinkEvent :: "os \<Rightarrow> linkUpdate \<Rightarrow> st \<Rightarrow> st" where
  "handleLinkEvent os u s =
     (case ifaceByIfname os (lu_Name u) s of
        (None, s) \<Rightarrow> s
      | (Some p, s) \<Rightarrow>
          if lu_Type u = RTM_DELLINK
          then (if Ifindex (heap s p) \<noteq> lu_Index u then s
                else upd p (\<lambda>i. i\<lparr>Ifindex := 0, Running := False, Addr6 := [], cachedLLValid := False,
                                   HaveLinkLocal := False\<rparr>)
                       (clearMirroredState os p (disableServices os p s)))
          else let nowRunning = (lu_Flags u AND IFF_RUNNING \<noteq> 0)
               in if Ifindex (heap s p) = lu_Index u
                  then (let wasRunning = Running (heap s p);
                            s = upd p (\<lambda>i. i\<lparr>Running := nowRunning\<rparr>) s
                        in if wasRunning \<noteq> nowRunning
                           then reloadServices os p
                                  (if nowRunning then refreshInterfaceAddresses os p s else s)
                           else s)
                  else (let s = clearMirroredState os p (disableServices os p s);
                            s = upd p (\<lambda>i. i\<lparr>Ifindex := lu_Index u, Running := nowRunning\<rparr>) s
                        in reloadServices os p (refreshInterfaceAddresses os p s)))"

section \<open>Addresses\<close>

definition handleAddrEvent :: "os \<Rightarrow> addrUpdate \<Rightarrow> st \<Rightarrow> st" where
  "handleAddrEvent os u s =
     (if ip_To4 (au_IP u) \<noteq> [] then s
      else case ifaceByIndex os (au_LinkIndex u) s of
          (None, s) \<Rightarrow> s
        | (Some p, s) \<Rightarrow>
            (let s = refreshInterfaceAddresses os p s
             in case addrFromSlice (ip_To16 (au_IP u)) of
                  None \<Rightarrow> s
                | Some a \<Rightarrow>
                    (let addr = unmap a;
                         s = (if own_mirrorable (heap s p) addr
                              then ndpMirrorAddr os addr p (au_NewAddr u) s else s)
                     in if isLinkLocalUnicast addr
                        then upd p (\<lambda>i. i\<lparr>cachedLLValid := False\<rparr>) s else s)))"

section \<open>Neighbours\<close>

definition handleNeighEvent :: "os \<Rightarrow> neighUpdate \<Rightarrow> st \<Rightarrow> st" where
  "handleNeighEvent os u s =
     (if nu_Type u \<noteq> RTM_NEWNEIGH then s
      else case ifaceByIndex os (ng_LinkIndex (nu_Neigh u)) s of
          (None, s) \<Rightarrow> s
        | (Some p, s) \<Rightarrow>
            if NDP (heap s p) \<noteq> ModeRelay then s
            else if ip_To4 (ng_IP (nu_Neigh u)) \<noteq> [] then s
            else case addrFromSlice (ip_To16 (ng_IP (nu_Neigh u))) of
                   None \<Rightarrow> s
                 | Some a \<Rightarrow>
                     (let addr = unmap a
                      in if unmirrorable addr then s
                         else let key = (addr, Ifindex (heap s p));
                                  mirrored = (key \<in> set (mirroredNeighs s));
                                  resolved = (ng_State (nu_Neigh u) AND resolvedMask \<noteq> 0);
                                  failed = (ng_State (nu_Neigh u) AND NUD_FAILED \<noteq> 0)
                              in if resolved \<and> \<not> mirrored
                                 then ndpMirrorAddr os addr p True (mirrored_add key s)
                                 else if failed
                                 then deleteFailedNeigh os addr (Ifindex (heap s p))
                                        (if mirrored
                                         then ndpMirrorAddr os addr p False (mirrored_del key s) else s)
                                 else s))"

section \<open>Routes and reconciliation\<close>

definition scheduleReconcile :: "st \<Rightarrow> st" where
  "scheduleReconcile s =
     (if reconcileScheduled s then s
      else snd (AfterFunc reconcileDebounce ReconcileTimer (s\<lparr>reconcileScheduled := True\<rparr>)))"

text \<open>The host routes the daemon owns.\<close>

definition owned_host_route :: "route \<Rightarrow> bool" where
  "owned_host_route r = (rt_Priority r = ourRouteMetric \<and>
     (case rt_Dst r of None \<Rightarrow> False | Some d \<Rightarrow> mask_size (net_Mask d) = (128, 128)))"

definition handleRouteEvent :: "os \<Rightarrow> routeUpdate \<Rightarrow> st \<Rightarrow> st" where
  "handleRouteEvent os u s =
     (if ru_Type u \<noteq> RTM_DELROUTE \<or> \<not> owned_host_route (ru_Route u) then s
      else case ifaceByIndex os (rt_LinkIndex (ru_Route u)) s of
          (None, s) \<Rightarrow> s
        | (Some p, s) \<Rightarrow> if NDP (heap s p) \<noteq> ModeRelay then s else scheduleReconcile s)"

definition reassert_proxy :: "os \<Rightarrow> ptr \<Rightarrow> st \<Rightarrow> st" where
  "reassert_proxy os p s =
     (if NDP (heap s p) \<noteq> ModeRelay \<or> ndp (heap s p) = None then s
      else case setProxyNDP os (Ifname (heap s p)) True s of (e, s) \<Rightarrow>
             if e \<noteq> None then Debugf ''reconcile proxy_ndp on %s: %v'' s else s)"

definition reassert_addr :: "os \<Rightarrow> ptr \<Rightarrow> IPAddr \<Rightarrow> st \<Rightarrow> st" where
  "reassert_addr os p a s =
     (if isLoopback (Addr a) \<or> isMulticast (Addr a) then s
      else if isLinkLocalUnicast (Addr a) \<and> \<not> LearnRoutes (heap s p) then s
      else ndpMirrorAddr os (Addr a) p True s)"

definition reassert_own :: "os \<Rightarrow> ptr \<Rightarrow> st \<Rightarrow> st" where
  "reassert_own os p s =
     (if NDP (heap s p) \<noteq> ModeRelay then s else fold (reassert_addr os p) (Addr6 (heap s p)) s)"

definition reassert_key :: "os \<Rightarrow> neighKey \<Rightarrow> st \<Rightarrow> st" where
  "reassert_key os key s =
     (case ifaceByIndex os (snd key) s of
        (None, s) \<Rightarrow> s
      | (Some p, s) \<Rightarrow> ndpMirrorAddr os (fst key) p True s)"

definition reconcileKernelState :: "os \<Rightarrow> st \<Rightarrow> st" where
  "reconcileKernelState os s =
     (let s = (case range_interfaces os s of (cs, s) \<Rightarrow> fold (reassert_proxy os) cs s);
          s = (case range_interfaces os s of (cs, s) \<Rightarrow> fold (reassert_own os) cs s)
      in case range_mirrored os s of (ks, s) \<Rightarrow> fold (reassert_key os) ks s)"

text \<open>The closure \<^verbatim>\<open>scheduleReconcile\<close> posts when its timer fires.\<close>

definition reconcileFire :: "os \<Rightarrow> st \<Rightarrow> st" where
  "reconcileFire os s = reconcileKernelState os (s\<lparr>reconcileScheduled := False\<rparr>)"

section \<open>The periodic sweep\<close>

definition sweep_neigh :: "os \<Rightarrow> ptr \<Rightarrow> neigh \<Rightarrow> addr list \<times> st \<Rightarrow> addr list \<times> st" where
  "sweep_neigh os p n = (\<lambda>(live, s).
     if is_proxy n then (live, s)
     else case addrFromSlice (ip_To16 (ng_IP n)) of
            None \<Rightarrow> (live, s)
          | Some a \<Rightarrow>
              (let addr = unmap a
               in if unmirrorable addr then (live, s)
                  else if ng_State n AND NUD_FAILED \<noteq> 0
                  then (let key = (addr, Ifindex (heap s p));
                            s = (if key \<in> set (mirroredNeighs s)
                                 then ndpMirrorAddr os addr p False (mirrored_del key s) else s)
                        in (live, deleteFailedNeigh os addr (Ifindex (heap s p)) s))
                  else (addr # live,
                        if ng_State n AND NUD_STALE \<noteq> 0 then probeNeighbor os addr (Ifindex (heap s p)) s
                        else s)))"

definition sweep_route :: "os \<Rightarrow> ptr \<Rightarrow> addr list \<Rightarrow> route \<Rightarrow> st \<Rightarrow> st" where
  "sweep_route os p live r s =
     (if rt_LinkIndex r \<noteq> Ifindex (heap s p) \<or> \<not> owned_host_route r then s
      else case addrFromSlice (ip_To16 (net_IP (the (rt_Dst r)))) of
             None \<Rightarrow> s
           | Some a \<Rightarrow>
               (let addr = unmap a
                in if addr \<in> set live then s
                   else ndpMirrorAddr os addr p False
                          (Noticef ''Removing orphaned host route/proxy-NDP entry %s on %s (no matching neighbor left)''
                             (mirrored_del (addr, Ifindex (heap s p)) s))))"

definition sweepIfaceFailedAndOrphans :: "os \<Rightarrow> ptr \<Rightarrow> st \<Rightarrow> st" where
  "sweepIfaceFailedAndOrphans os p s =
     (case os_LinkByIndex os (clk s) (Ifindex (heap s p)) of
        Inl _ \<Rightarrow> tick s
      | Inr link \<Rightarrow>
          (let s = tick s
           in case os_NeighList os (clk s) (lk_Index link) of
                Inl _ \<Rightarrow> Debugf ''sweep: list neighbors on %s: %v'' (tick s)
              | Inr neighs \<Rightarrow>
                  (case fold (sweep_neigh os p) neighs ([], tick s) of (live, s) \<Rightarrow>
                     (case os_RouteList os (clk s) (lk_Index link) of
                        Inl _ \<Rightarrow> Debugf ''sweep: list routes on %s: %v'' (tick s)
                      | Inr routes \<Rightarrow> fold (sweep_route os p live) routes (tick s)))))"

definition sweep_iface :: "os \<Rightarrow> ptr \<Rightarrow> st \<Rightarrow> st" where
  "sweep_iface os p s =
     (if NDP (heap s p) \<noteq> ModeRelay then s else sweepIfaceFailedAndOrphans os p s)"

definition sweepFailedAndOrphans :: "os \<Rightarrow> st \<Rightarrow> st" where
  "sweepFailedAndOrphans os s =
     (case range_interfaces os s of (cs, s) \<Rightarrow> fold (sweep_iface os) cs s)"

text \<open>
  \<^verbatim>\<open>startMirrorSweep\<close> arms the first tick; a tick posts a sweep and arms the next one, unless \<^verbatim>\<open>done\<close>
  is closed. The result says whether a sweep is posted.
\<close>

definition startMirrorSweep :: "st \<Rightarrow> st" where
  "startMirrorSweep s = snd (AfterFunc mirrorSweepInterval SweepTick s)"

definition sweepTick :: "bool \<Rightarrow> st \<Rightarrow> bool \<times> st" where
  "sweepTick done s =
     (if done then (False, s) else (True, snd (AfterFunc mirrorSweepInterval SweepTick s)))"

section \<open>Frames and the invariant\<close>

context quiet_mirror
begin

lemma obs_handleNeighEvent [simp]: "obs (handleNeighEvent os u s) = obs s"
proof -
  obtain r t where g: "ifaceByIndex os (ng_LinkIndex (nu_Neigh u)) s = (r, t)" by (metis surj_pair)
  then have "obs t = obs s" using obs_ifaceBy(1) [of os "ng_LinkIndex (nu_Neigh u)" s] by simp
  with g show ?thesis by (auto simp: handleNeighEvent_def Let_def split: option.split)
qed

lemma obs_reassert [simp]:
  "obs (reassert_proxy os p s) = obs s" "obs (reassert_addr os p a s) = obs s"
  by (simp_all add: reassert_proxy_def reassert_addr_def case_prod_beta)

lemma obs_reassert_own [simp]: "obs (reassert_own os p s) = obs s"
  by (simp add: reassert_own_def fold_frame [where obs = obs])

lemma obs_reassert_key [simp]: "obs (reassert_key os k s) = obs s"
proof -
  obtain r t where g: "ifaceByIndex os (snd k) s = (r, t)" by (metis surj_pair)
  then have "obs t = obs s" using obs_ifaceBy(1) [of os "snd k" s] by simp
  with g show ?thesis by (simp add: reassert_key_def split: option.split)
qed

lemma obs_reconcileKernelState [simp]: "obs (reconcileKernelState os s) = obs s"
  by (simp add: reconcileKernelState_def Let_def case_prod_beta fold_frame [where obs = obs])

lemma obs_sweep_neigh [simp]: "obs (snd (sweep_neigh os p n ls)) = obs (snd ls)"
  by (simp add: sweep_neigh_def Let_def case_prod_beta split: option.split)

lemma obs_sweep_neighs [simp]: "obs (snd (fold (sweep_neigh os p) ns ls)) = obs (snd ls)"
  by (induction ns arbitrary: ls) simp_all

lemma obs_sweep_route [simp]: "obs (sweep_route os p live r s) = obs s"
  by (simp add: sweep_route_def Let_def split: option.split)

lemma obs_sweepIface [simp]: "obs (sweepIfaceFailedAndOrphans os p s) = obs s"
  by (simp add: sweepIfaceFailedAndOrphans_def Let_def case_prod_beta fold_frame [where obs = obs] split: sum.split)

lemma obs_sweepFailedAndOrphans [simp]: "obs (sweepFailedAndOrphans os s) = obs s"
  by (simp add: sweepFailedAndOrphans_def sweep_iface_def case_prod_beta fold_frame [where obs = obs])

end

lemma daemon_fields_upd:
  assumes "daemon_ok s"
  shows "daemon_ok (upd p (\<lambda>i. i\<lparr>Running := b\<rparr>) s)" "daemon_ok (upd p (\<lambda>i. i\<lparr>Ifindex := n, Running := b\<rparr>) s)"
    "daemon_ok (upd p (\<lambda>i. i\<lparr>cachedLLValid := False\<rparr>) s)"
    "daemon_ok (upd p (\<lambda>i. i\<lparr>Ifindex := n, Running := b, Addr6 := as, cachedLLValid := False,
       HaveLinkLocal := h\<rparr>) s)"
  by (rule daemon_upd [OF assms]; (rule sock_of_cong)?; simp add: cache_ok_def ll_addrs_def)+

lemma handleLinkEvent_daemon:
  assumes "daemon_ok s"
  shows "daemon_ok (handleLinkEvent os u s)"
proof -
  obtain r t where g: "ifaceByIfname os (lu_Name u) s = (r, t)" by (metis surj_pair)
  then have t: "daemon_ok t" "registered t = registered s"
    using assms daemon_mobs.obs_ifaceBy(2) [of os "lu_Name u" s]
      registered_sobs.obs_ifaceBy(2) [of os "lu_Name u" s] by simp_all
  show ?thesis
  proof (cases r)
    case (Some p)
    then have p: "p \<in> registered t"
      using ifaceByIfname_Some [of os "lu_Name u" s p] g t(2) by (simp add: registered_def)
    have r: "registered (refreshInterfaceAddresses os p x) = registered x" for x by (simp add: registered_def)
    show ?thesis
      using t p by (simp add: handleLinkEvent_def g Some Let_def daemon_fields_upd daemon_disable daemon_refresh
          daemon_reloadServices r)
  qed (use g t in \<open>simp add: handleLinkEvent_def\<close>)
qed

lemma handleAddrEvent_daemon:
  assumes "daemon_ok s"
  shows "daemon_ok (handleAddrEvent os u s)"
proof -
  obtain r t where g: "ifaceByIndex os (au_LinkIndex u) s = (r, t)" by (metis surj_pair)
  then have t: "daemon_ok t" using assms daemon_mobs.obs_ifaceBy(1) [of os "au_LinkIndex u" s] by simp
  show ?thesis
    using assms t by (auto simp: handleAddrEvent_def g Let_def daemon_refresh daemon_fields_upd split: option.split)
qed

lemma daemon_timers [simp]:
  "daemon_ok (s\<lparr>timers := ts, nextTimer := n\<rparr>) = daemon_ok s" "daemon_ok (s\<lparr>timers := ts\<rparr>) = daemon_ok s"
  "daemon_ok (s\<lparr>reconcileScheduled := b\<rparr>) = daemon_ok s" "daemon_ok (s\<lparr>readers := rs\<rparr>) = daemon_ok s"
  by (simp_all add: daemon_ok_def registry_ok_def sockets_ok_def caches_ok_def registered_def socket_table_def)

lemma scheduleReconcile_daemon [simp]: "daemon_ok (scheduleReconcile s) = daemon_ok s"
  by (simp add: scheduleReconcile_def AfterFunc_def)

lemma handleRouteEvent_daemon [simp]: "daemon_ok (handleRouteEvent os u s) = daemon_ok s"
proof -
  obtain r t where g: "ifaceByIndex os (rt_LinkIndex (ru_Route u)) s = (r, t)" by (metis surj_pair)
  then have "daemon_ok t = daemon_ok s"
    using daemon_mobs.obs_ifaceBy(1) [of os "rt_LinkIndex (ru_Route u)" s] by simp
  then show ?thesis by (simp add: handleRouteEvent_def g split: option.split)
qed

text \<open>Everything the daemon owns but the set of mirrored neighbours.\<close>

definition own_rest :: "st \<Rightarrow> st" where
  "own_rest s = (own_state s)\<lparr>mirroredNeighs := []\<rparr>"

interpretation own_rest_mobs: mirror_obs own_rest
  by unfold_locales (simp_all add: own_rest_def own_state_def logf_def Let_def)

lemma own_rest_eq: "own_rest t = own_rest s \<Longrightarrow> mirroredNeighs t = mirroredNeighs s \<Longrightarrow> own_state t = own_state s"
  by (cases t; cases s) (simp add: own_rest_def own_state_def)

section \<open>Links\<close>

text \<open>Starting and stopping services touches no mirrored neighbour of another interface index.\<close>

definition keys_beside :: "int \<Rightarrow> st \<Rightarrow> neighKey set" where
  "keys_beside i s = {k \<in> set (mirroredNeighs s). snd k \<noteq> i}"

lemma mirrored_off:
  "mirroredNeighs (router_teardown os p s) = mirroredNeighs s" "mirroredNeighs (dhcp_teardown os p s) = mirroredNeighs s"
  "mirroredNeighs (ndp_teardown os p s) = mirroredNeighs s" "mirroredNeighs (stop_rsTimer p s) = mirroredNeighs s"
  "mirroredNeighs (snd (make_chan s)) = mirroredNeighs s" "mirroredNeighs (go r s) = mirroredNeighs s"
  by (simp_all add: router_teardown_def dhcp_teardown_def ndp_teardown_def stop_rsTimer_def close_chan_def timer_Stop_def
      make_chan_def go_def split: option.split)

lemma mirrored_setup:
  "mirroredNeighs (snd (routerSetup os p e s)) = mirroredNeighs s"
  "mirroredNeighs (snd (dhcpv6Setup os p e s)) = mirroredNeighs s"
  by (simp_all add: routerSetup_def dhcpv6Setup_def Let_def case_prod_beta mirrored_off split: sum.split option.split)

lemma mirrored_disable: "mirroredNeighs (disableServices os p s) = mirroredNeighs s"
proof -
  have "mirroredNeighs (snd (ndpSetup os p False x)) = mirroredNeighs x" for x
    by (simp add: ndpSetup_def Let_def mirrored_off)
  then show ?thesis by (simp add: disableServices_def mirrored_setup)
qed

lemma keys_beside_seed:
  assumes "Ifindex (heap s p) = i"
  shows "keys_beside i (seedMirroredNeighbors os p s) = keys_beside i s"
proof -
  have one: "keys_beside i (seed_one os p n x) = keys_beside i x" if "Ifindex (heap x p) = i" for n x
    using that by (auto simp: seed_one_def Let_def keys_beside_def split: option.split)
  have "Ifindex (heap (fold (seed_one os p) ns x) p) = i \<and> keys_beside i (fold (seed_one os p) ns x) = keys_beside i x"
    if "Ifindex (heap x p) = i" for ns x
    using that by (induction ns arbitrary: x) (simp_all add: one)
  then show ?thesis
    using assms by (auto simp: seedMirroredNeighbors_def keys_beside_def split: sum.split)
qed

interpretation keys_obs: world_obs "keys_beside i" for i
  by unfold_locales (simp_all add: keys_beside_def)

lemma keys_beside_prims [simp]:
  "keys_beside i (snd (make_chan s)) = keys_beside i s" "keys_beside i (go r s) = keys_beside i s"
  "keys_beside i (upd p f s) = keys_beside i s" "keys_beside i (ndp_teardown os p s) = keys_beside i s"
  "keys_beside i (snd (setProxyNDP os n b s)) = keys_beside i s"
  by (simp_all add: keys_beside_def mirrored_off)

lemma keys_beside_ndpSetup:
  assumes "Ifindex (heap s p) = i"
  shows "keys_beside i (snd (ndpSetup os p e s)) = keys_beside i s"
proof -
  have h: "heap (go r x) = heap x" "heap (snd (make_chan x)) = heap x" for r x by (simp_all add: go_def make_chan_def)
  have seed: "keys_beside i (seedMirroredNeighbors os p (go r (upd p (\<lambda>i. i\<lparr>ndp := n\<rparr>) x))) = keys_beside i x"
    if "Ifindex (heap x p) = i" for r n x
    using keys_beside_seed [of "go r (upd p (\<lambda>i. i\<lparr>ndp := n\<rparr>) x)" p i os] that h by simp
  have "Ifindex (heap (ndp_teardown os p s) p) = i"
    using assms by (simp add: ndp_teardown_def close_chan_def split: option.split)
  then show ?thesis
    by (simp add: ndpSetup_def ndp_capture_def Let_def case_prod_beta seed h split: sum.split)
qed

lemma keys_beside_reload:
  assumes "Ifindex (heap s p) = i"
  shows "keys_beside i (reloadServices os p s) = keys_beside i s"
  using assms keys_beside_ndpSetup [of "snd (dhcpv6Setup os p a (snd (routerSetup os p b x)))" p i os c for a b c x]
  by (simp add: reloadServices_def Let_def) (simp add: keys_beside_def mirrored_setup mirrored_disable)

context service
begin

lemma conf_closed: "closed (socket_table s) \<subseteq> closed (socket_table (snd (conf os p e s)))"
  using conf_off [of os p s] conf_on [of os p s]
  by (cases e) (auto simp: a_close_def a_open_def split: option.split)

end

lemma disableServices_closed:
  "closed (socket_table s) \<subseteq> closed (socket_table (disableServices os p s))"
  "socks (socket_table s) (p, k) = Some x \<Longrightarrow> fst x \<in> closed (socket_table (disableServices os p s))"
  unfolding disableServices_table by (cases k; auto simp: a_close_def split: option.split)+

lemma reloadServices_closed: "closed (socket_table s) \<subseteq> closed (socket_table (reloadServices os p s))"
proof (cases "Running (heap s p)")
  case True
  let ?s = "Debugf ''Enabling services with %s running'' s"
  have "closed (socket_table s) \<subseteq> closed (socket_table (snd (ndpSetup os p c (snd (dhcpv6Setup os p b (snd (routerSetup os p a ?s)))))))"
    for a b c
    using router_svc.conf_closed [of ?s os p a] dhcp_svc.conf_closed ndp_svc.conf_closed
    by (simp del: service.conf_fields) blast
  then show ?thesis using True by (simp add: reloadServices_def Let_def)
next
  case False
  then show ?thesis
    using disableServices_closed(1) [of "Debugf ''Disabling services with %s not running'' s" os p]
    by (simp add: reloadServices_def)
qed

text \<open>
  C13. When the kernel deletes a tracked link, \<^verbatim>\<open>handleLinkEvent\<close> resets the interface completely: index,
  carrier, addresses and link-local state are cleared, its three sockets are closed, and no mirrored
  neighbour of the old index is remembered; the sockets of the other interfaces and the neighbours behind
  them stay, and the interface stays registered, so that it can come back.
\<close>

theorem handleLinkEvent_deleted:
  assumes "daemon_ok s" "fst (ifaceByIfname os (lu_Name u) s) = Some p"
    and "lu_Type u = RTM_DELLINK" "Ifindex (heap s p) = lu_Index u"
  defines "t \<equiv> handleLinkEvent os u s"
  shows "daemon_ok t \<and> interfaces t = interfaces s \<and>
    Ifindex (heap t p) = 0 \<and> \<not> Running (heap t p) \<and> Addr6 (heap t p) = [] \<and>
    \<not> cachedLLValid (heap t p) \<and> \<not> HaveLinkLocal (heap t p) \<and>
    (\<forall>q k. has_sock t q k \<longleftrightarrow> q \<noteq> p \<and> has_sock s q k) \<and>
    set (mirroredNeighs t) = {k \<in> set (mirroredNeighs s). snd k \<noteq> lu_Index u}"
proof -
  obtain s' where g: "ifaceByIfname os (lu_Name u) s = (Some p, s')" using assms(2) by (metis prod.collapse)
  have s': "s' = tick s" using g by (auto simp: ifaceByIfname_def range_interfaces_def)
  let ?d = "disableServices os p s'"
  let ?c = "clearMirroredState os p ?d"
  let ?f = "\<lambda>i. i\<lparr>Ifindex := 0, Running := False, Addr6 := [], cachedLLValid := False, HaveLinkLocal := False\<rparr>"
  have t: "t = upd p ?f ?c"
    using assms(3, 4) by (simp add: t_def handleLinkEvent_def g) (simp add: s')
  have "sock_of k (?f i) = sock_of k i" for k i by (rule sock_of_cong) simp_all
  then have sk: "socket_table t = socket_table ?d" by (simp add: t socket_table_upd_same)
  have "mirroredNeighs ?d = mirroredNeighs s'" by (rule mirrored_disable)
  then have "set (mirroredNeighs t) = {k \<in> set (mirroredNeighs s). snd k \<noteq> lu_Index u}"
    using assms(4) config_ofD(3) [OF config_sobs.obs_disableServices, of os p s' p]
    by (simp add: t clear_mirrored_set) (simp add: s')
  then show ?thesis
    using handleLinkEvent_daemon [OF assms(1), of os u]
    by (simp add: t_def [symmetric] sk disableServices_socks) (simp add: t s')
qed

text \<open>
  C14. A carrier change on a tracked link: the running flag follows the event; without a transition the
  state is exactly what it was, one step of the interaction counter later (the walk over the registry):
  nothing was called and nothing was asked; when the carrier goes down the interface's sockets are
  closed; when it comes up on a world that refuses nothing, exactly the services it relays have a
  socket. The sockets of other interfaces never change.
\<close>

theorem handleLinkEvent_carrier:
  assumes "daemon_ok s" "fst (ifaceByIfname os (lu_Name u) s) = Some p"
    and "lu_Type u \<noteq> RTM_DELLINK" "Ifindex (heap s p) = lu_Index u"
  defines "t \<equiv> handleLinkEvent os u s" and "up \<equiv> lu_Flags u AND IFF_RUNNING \<noteq> 0"
  shows "daemon_ok t \<and> Running (heap t p) = up \<and>
    (Running (heap s p) = up \<longrightarrow> t = tick s) \<and>
    (Running (heap s p) \<and> \<not> up \<longrightarrow> (\<forall>k. \<not> has_sock t p k)) \<and>
    (\<not> Running (heap s p) \<and> up \<and> willing os \<longrightarrow>
       (\<forall>k. has_sock t p k \<longleftrightarrow> mode_of k (heap s p) = ModeRelay)) \<and>
    (\<forall>q k. q \<noteq> p \<longrightarrow> socks (socket_table t) (q, k) = socks (socket_table s) (q, k))"
proof -
  obtain s' where g: "ifaceByIfname os (lu_Name u) s = (Some p, s')" using assms(2) by (metis prod.collapse)
  have s': "s' = tick s" using g by (auto simp: ifaceByIfname_def range_interfaces_def)
  define v where "v = upd p (\<lambda>i. i\<lparr>Running := up\<rparr>) s'"
  define w where "w = (if up then refreshInterfaceAddresses os p v else v)"
  have t: "t = (if Running (heap s p) = up then v else reloadServices os p w)"
    using assms(3, 4) by (auto simp: t_def handleLinkEvent_def g Let_def v_def w_def up_def) (simp_all add: s')
  have "sock_of k (i\<lparr>Running := up\<rparr>) = sock_of k i" for k i by (rule sock_of_cong) simp_all
  then have v: "socket_table v = socket_table s" "Running (heap v p) = up"
    "mode_of k (heap v p) = mode_of k (heap s p)" for k
    by (simp_all add: v_def s' socket_table_upd_same) (cases k; simp)
  have vt: "v = tick s" if "Running (heap s p) = up"
  proof -
    have "(heap s p)\<lparr>Running := up\<rparr> = heap s p" using that by (cases "heap s p") simp
    then show ?thesis by (simp add: v_def s' upd_def)
  qed
  have "mode_of k (heap (refreshInterfaceAddresses os p v) p) = mode_of k (heap v p)" for k by (cases k) simp_all
  then have w: "socket_table w = socket_table s" "Running (heap w p) = up" "mode_of k (heap w p) = mode_of k (heap s p)" for k
    using v by (simp_all add: w_def)
  have "daemon_ok t" using handleLinkEvent_daemon [OF assms(1)] by (simp add: t_def)
  moreover have "Running (heap t p) = up" by (simp add: t v w)
  moreover have "\<not> has_sock (reloadServices os p w) p k" if "\<not> up" for k
    using reloadServices_only_if [of os p w k] that w(2) by blast
  moreover have "has_sock (reloadServices os p w) p k \<longleftrightarrow> mode_of k (heap s p) = ModeRelay" if "up" "willing os" for k
    using reloadServices_only_if [of os p w k] reloadServices_up [OF that(2), of w p k] that w(2, 3) Mode_not(2)
    by metis
  moreover have "socks (socket_table t) (q, k) = socks (socket_table s) (q, k)" if "q \<noteq> p" for q k
    using that by (simp add: t v w reloadServices_socks)
  moreover have "t = tick s" if "Running (heap s p) = up" using that vt by (simp add: t)
  moreover have "t = reloadServices os p w" if "Running (heap s p) \<noteq> up" using that by (simp add: t)
  ultimately show ?thesis by auto
qed

text \<open>
  C17. A tracked link that comes back under its name with another index (it was deleted and made again, and
  its deletion was missed). The interface is moved to the new index and the running flag follows the event;
  no mirrored neighbour of the old index is remembered, and those of every other index but the new one
  stay; the done channels of its old sockets are closed, and sockets are open afterwards only for services it relays and
  only if the link is up, all of them on a world that refuses nothing. The sockets of other
  interfaces never change, and the interface stays registered.
\<close>

theorem handleLinkEvent_reindexed:
  assumes "daemon_ok s" "fst (ifaceByIfname os (lu_Name u) s) = Some p"
    and "lu_Type u \<noteq> RTM_DELLINK" "Ifindex (heap s p) \<noteq> lu_Index u"
  defines "t \<equiv> handleLinkEvent os u s" and "up \<equiv> lu_Flags u AND IFF_RUNNING \<noteq> 0"
  shows "daemon_ok t \<and> interfaces t = interfaces s \<and> Ifindex (heap t p) = lu_Index u \<and> Running (heap t p) = up \<and>
    {k \<in> set (mirroredNeighs t). snd k \<noteq> lu_Index u} =
      {k \<in> set (mirroredNeighs s). snd k \<noteq> Ifindex (heap s p) \<and> snd k \<noteq> lu_Index u} \<and>
    (\<forall>k. has_sock s p k \<longrightarrow> fst (the (socks (socket_table s) (p, k))) \<in> set (closedChans t)) \<and>
    (\<forall>k. has_sock t p k \<longrightarrow> up \<and> mode_of k (heap s p) = ModeRelay) \<and>
    (willing os \<and> up \<longrightarrow> (\<forall>k. mode_of k (heap s p) = ModeRelay \<longrightarrow> has_sock t p k)) \<and>
    (\<forall>q k. q \<noteq> p \<longrightarrow> socks (socket_table t) (q, k) = socks (socket_table s) (q, k))"
proof -
  obtain s' where g: "ifaceByIfname os (lu_Name u) s = (Some p, s')" using assms(2) by (metis prod.collapse)
  have s': "s' = tick s" using g by (auto simp: ifaceByIfname_def range_interfaces_def)
  let ?d = "disableServices os p s'"
  let ?c = "clearMirroredState os p ?d"
  let ?f = "\<lambda>i. i\<lparr>Ifindex := lu_Index u, Running := up\<rparr>"
  define v where "v = refreshInterfaceAddresses os p (upd p ?f ?c)"
  have t: "t = reloadServices os p v"
    using assms(3, 4) by (simp add: t_def handleLinkEvent_def g Let_def v_def up_def) (simp add: s')
  have cf: "config_of (heap ?d p) = config_of (heap s p)" by (simp add: s')
  have "sock_of k (?f i) = sock_of k i" for k i by (rule sock_of_cong) simp_all
  then have st: "socket_table v = socket_table ?d" by (simp add: v_def socket_table_upd_same)
  have v: "Ifindex (heap v p) = lu_Index u" "Running (heap v p) = up" "interfaces v = interfaces s"
    by (simp_all add: v_def s')
  have "mode_of k (heap v p) = mode_of k (heap ?d p)" for k by (cases k) (simp_all add: v_def)
  then have m: "mode_of k (heap v p) = mode_of k (heap s p)" for k using mode_config [OF cf] by simp
  have "keys_beside (lu_Index u) t = keys_beside (lu_Index u) v" using keys_beside_reload v(1) t by simp
  also have "\<dots> = {k \<in> set (mirroredNeighs s). snd k \<noteq> Ifindex (heap s p) \<and> snd k \<noteq> lu_Index u}"
    using config_ofD(3) [OF cf] by (auto simp: keys_beside_def v_def clear_mirrored_set mirrored_disable) (simp_all add: s')
  finally have k: "{k \<in> set (mirroredNeighs t). snd k \<noteq> lu_Index u} =
      {k \<in> set (mirroredNeighs s). snd k \<noteq> Ifindex (heap s p) \<and> snd k \<noteq> lu_Index u}"
    by (simp only: keys_beside_def)
  have "daemon_ok t" using handleLinkEvent_daemon [OF assms(1)] by (simp add: t_def)
  moreover have "up \<and> mode_of k (heap s p) = ModeRelay" if "has_sock t p k" for k
    using reloadServices_only_if [of os p v k] that t v(2) m Mode_not(2) by metis
  moreover have "has_sock t p k" if "willing os" "up" "mode_of k (heap s p) = ModeRelay" for k
    using reloadServices_up [OF that(1), of v p k] that t v(2) m by simp
  moreover have "socks (socket_table t) (q, k) = socks (socket_table s) (q, k)" if "q \<noteq> p" for q k
    using that by (simp add: t reloadServices_socks st disableServices_socks) (simp add: s')
  moreover have "Ifindex (heap t p) = lu_Index u" "Running (heap t p) = up"
    using v config_ofD(3, 4) [OF config_sobs.obs_reloadServices, of os p v p] by (simp_all add: t)
  moreover have "interfaces t = interfaces s" using v by (simp add: t)
  moreover have "fst (the (socks (socket_table s) (p, k))) \<in> set (closedChans t)" if "has_sock s p k" for k
  proof -
    have "socks (socket_table s') (p, k) = Some (the (socks (socket_table s) (p, k)))" using that by (auto simp: s')
    from disableServices_closed(2) [OF this, of os] have
      "fst (the (socks (socket_table s) (p, k))) \<in> closed (socket_table t)"
      using reloadServices_closed [of v os p] st t by auto
    then show ?thesis by (simp add: socket_table_def)
  qed
  ultimately show ?thesis using k by blast
qed

section \<open>Neighbours\<close>

text \<open>
  The abstract machine: the set of mirrored neighbours and the two kernel tables. An event about a
  neighbour moves it on an edge only.
\<close>

type_synonym mirror_state = "neighKey set \<times> proxies \<times> routes"

definition mirror_abs :: "st \<Rightarrow> mirror_state" where
  "mirror_abs s = (set (mirroredNeighs s), tables s)"

definition neigh_spec ::
  "addr \<Rightarrow> int \<Rightarrow> int set \<Rightarrow> bool \<Rightarrow> bool \<Rightarrow> bool \<Rightarrow> mirror_state \<Rightarrow> mirror_state" where
  "neigh_spec a i targets routed resolved failed = (\<lambda>(M, T).
     if resolved \<and> (a, i) \<notin> M then (insert (a, i) M, mirror_spec a targets i routed True T)
     else if failed \<and> (a, i) \<in> M then (M - {(a, i)}, mirror_spec a targets i routed False T)
     else (M, T))"

text \<open>The relay interface and the neighbour an event is about, if the daemon is concerned.\<close>

definition neigh_target :: "os \<Rightarrow> neighUpdate \<Rightarrow> st \<Rightarrow> (ptr \<times> addr) option" where
  "neigh_target os u s =
     (case fst (ifaceByIndex os (ng_LinkIndex (nu_Neigh u)) s) of
        None \<Rightarrow> None
      | Some p \<Rightarrow> if nu_Type u = RTM_NEWNEIGH \<and> NDP (heap s p) = ModeRelay \<and> length (ng_IP (nu_Neigh u)) = 16
                     \<and> take 12 (ng_IP (nu_Neigh u)) \<noteq> v4InV6Prefix \<and> \<not> unmirrorable (V6 (ng_IP (nu_Neigh u)))
                  then Some (p, V6 (ng_IP (nu_Neigh u))) else None)"

lemma tables_deleteFailedNeigh [simp]: "tables (deleteFailedNeigh os a i s) = tables s"
  by (simp add: tables_def deleteFailedNeigh_def Let_def case_prod_beta)

lemma tables_obs [simp]:
  "tables (mirrored_add k s) = tables s" "tables (mirrored_del k s) = tables s"
  "tables (snd (ifaceByIndex os i s)) = tables s" "tables (tick s) = tables s"
  by (simp_all add: tables_def)

lemma ip_cases:
  "ip_To4 ip = [] \<Longrightarrow> addrFromSlice (ip_To16 ip) =
     (if length ip = 16 \<and> take 12 ip \<noteq> v4InV6Prefix then Some (V6 ip) else None)"
  "ip_To4 ip \<noteq> [] \<longleftrightarrow> length ip = 4 \<or> (length ip = 16 \<and> take 12 ip = v4InV6Prefix)"
  by (auto simp: ip_To4_def ip_To16_def addrFromSlice_def v4InV6Prefix_def)

lemma handleNeighEvent_cases:
  "handleNeighEvent os u s =
   (case neigh_target os u s of
      None \<Rightarrow> (if nu_Type u = RTM_NEWNEIGH then snd (ifaceByIndex os (ng_LinkIndex (nu_Neigh u)) s) else s)
    | Some (p, a) \<Rightarrow>
        (let s' = snd (ifaceByIndex os (ng_LinkIndex (nu_Neigh u)) s); key = (a, Ifindex (heap s p));
             st = ng_State (nu_Neigh u)
         in if st AND resolvedMask \<noteq> 0 \<and> key \<notin> set (mirroredNeighs s)
            then ndpMirrorAddr os a p True (mirrored_add key s')
            else if st AND NUD_FAILED \<noteq> 0
            then deleteFailedNeigh os a (Ifindex (heap s p))
                   (if key \<in> set (mirroredNeighs s) then ndpMirrorAddr os a p False (mirrored_del key s') else s')
            else s'))"
proof -
  obtain r t where g: "ifaceByIndex os (ng_LinkIndex (nu_Neigh u)) s = (r, t)" by (metis surj_pair)
  have t: "heap t = heap s" "mirroredNeighs t = mirroredNeighs s"
    using heap_obs.obs_ifaceBy(1) [of os "ng_LinkIndex (nu_Neigh u)" s]
      mirroredNeighs_obs.obs_ifaceBy(1) [of os "ng_LinkIndex (nu_Neigh u)" s] g by simp_all
  let ?ip = "ng_IP (nu_Neigh u)"
  show ?thesis
  proof (cases "ip_To4 ?ip = []")
    case True
    have c: "unmap (V6 ?ip) = V6 ?ip" if "take 12 ?ip \<noteq> v4InV6Prefix" using that by simp
    show ?thesis
      using True ip_cases [of ?ip]
      by (cases r) (auto simp: handleNeighEvent_def neigh_target_def g t Let_def)
  next
    case False
    then have "\<not> (length ?ip = 16 \<and> take 12 ?ip \<noteq> v4InV6Prefix)" using ip_cases(2) [of ?ip] by auto
    then show ?thesis
      using False by (cases r) (auto simp: handleNeighEvent_def neigh_target_def g t)
  qed
qed

text \<open>
  C4. \<^verbatim>\<open>handleNeighEvent\<close> refines the edge-triggered mirror machine on a kernel that accepts the calls: a
  neighbour that becomes resolved is mirrored (key, proxy entries, host route), one that fails is
  unmirrored, and any other event about it, in particular each reconfirmation of a mirrored one, and
  every event that is no neighbour event of a relay interface or about a link-local, loopback, multicast
  or IPv4 address, changes neither the keys nor the tables.
\<close>

theorem handleNeighEvent_refines:
  assumes "accepted os"
  shows "mirror_abs (handleNeighEvent os u s) =
    (case neigh_target os u s of
       None \<Rightarrow> mirror_abs s
     | Some (p, a) \<Rightarrow>
         neigh_spec a (Ifindex (heap s p)) (mirror_targets s (Ifindex (heap s p))) (LearnRoutes (heap s p))
           (ng_State (nu_Neigh u) AND resolvedMask \<noteq> 0) (ng_State (nu_Neigh u) AND NUD_FAILED \<noteq> 0) (mirror_abs s))"
proof (cases "neigh_target os u s")
  case None
  then show ?thesis by (simp add: handleNeighEvent_cases mirror_abs_def)
next
  case (Some pa)
  obtain p a where pa: "pa = (p, a)" by (cases pa)
  have l: "\<not> isLinkLocalUnicast a"
    using Some pa by (auto simp: neigh_target_def unmirrorable_def split: option.splits if_splits)
  let ?s = "snd (ifaceByIndex os (ng_LinkIndex (nu_Neigh u)) s)"
  have T: "tables (ndpMirrorAddr os a p add x) =
      mirror_spec a (mirror_targets s (Ifindex (heap s p))) (Ifindex (heap s p)) (LearnRoutes (heap s p)) add (tables s)"
    if "heap x = heap s" "interfaces x = interfaces s" "tables x = tables s" for x add
    using ndpMirrorAddr_tables [OF assms, of a p add x] that l by (simp add: mirror_targets_def)
  have A: "tables (ndpMirrorAddr os a p True (mirrored_add k ?s)) =
      mirror_spec a (mirror_targets s (Ifindex (heap s p))) (Ifindex (heap s p)) (LearnRoutes (heap s p)) True (tables s)"
    "tables (ndpMirrorAddr os a p False (mirrored_del k ?s)) =
      mirror_spec a (mirror_targets s (Ifindex (heap s p))) (Ifindex (heap s p)) (LearnRoutes (heap s p)) False (tables s)" for k
    by (rule T; simp)+
  show ?thesis
    by (auto simp: handleNeighEvent_cases Some pa mirror_abs_def neigh_spec_def Let_def A)
qed

text \<open>A host behind the downstream interface becomes reachable.\<close>

definition demo_event :: neighUpdate where
  "demo_event = \<lparr>nu_Type = RTM_NEWNEIGH, nu_Neigh = \<lparr>ng_LinkIndex = 3, ng_Family = AF_INET6,
     ng_State = NUD_REACHABLE, ng_Flags = 0, ng_IP = asSlice demo_host\<rparr>\<rparr>"

lemma demo_lan_fields: "Ifindex demo_lan = 3" "LearnRoutes demo_lan" "NDP demo_lan = ModeRelay"
  by (simp_all add: demo_defs)

lemma demo_target:
  "heap s = heap demo_st \<Longrightarrow> interfaces s = interfaces demo_st \<Longrightarrow>
   neigh_target demo_os demo_event s = Some (1, demo_host)"
  by (simp add: neigh_target_def ifaceByIndex_def range_interfaces_def demo_defs unmirrorable_def
      isLinkLocalUnicast_def isLoopback_def isMulticast_def v4InV6Prefix_def demo_event_def)

theorem handleNeighEvent_refines_witness:
  "mirror_abs (handleNeighEvent demo_os demo_event demo_st) =
   ({(demo_host, 3)}, {(asSlice demo_host, 2)}, [host_key demo_host \<mapsto> 3])"
  using handleNeighEvent_refines [OF demo_accepts, of demo_event demo_st]
  by (simp add: demo_target demo_lan_fields neigh_spec_def demo_targets mirror_spec_def mirror_abs_def tables_def
      proxy_table_def route_table_def) (simp add: demo_event_def)

text \<open>
  Reconfirming a neighbour that is already mirrored is free: an event that reports it resolved and not
  failed makes no system call at all and leaves the mirrored set as it is.
\<close>

theorem handleNeighEvent_steady:
  assumes "neigh_target os u s = Some (p, a)" "(a, Ifindex (heap s p)) \<in> set (mirroredNeighs s)"
    and "ng_State (nu_Neigh u) AND NUD_FAILED = 0"
  shows "trace (handleNeighEvent os u s) = trace s \<and> mirroredNeighs (handleNeighEvent os u s) = mirroredNeighs s"
  using assms by (simp add: handleNeighEvent_cases Let_def)

theorem handleNeighEvent_steady_witness:
  "trace (handleNeighEvent demo_os demo_event (mirrored_add (demo_host, 3) demo_st)) = []"
proof -
  let ?s = "mirrored_add (demo_host, 3) demo_st"
  have "neigh_target demo_os demo_event ?s = Some (1, demo_host)" by (rule demo_target) simp_all
  from handleNeighEvent_steady [OF this] show ?thesis by (simp add: demo_lan_fields demo_event_def)
qed

section \<open>Routes and reconciliation\<close>

definition route_relevant :: "os \<Rightarrow> routeUpdate \<Rightarrow> st \<Rightarrow> bool" where
  "route_relevant os u s = (ru_Type u = RTM_DELROUTE \<and> owned_host_route (ru_Route u) \<and>
     (\<exists>p. fst (ifaceByIndex os (rt_LinkIndex (ru_Route u)) s) = Some p \<and> NDP (heap s p) = ModeRelay))"

definition new_reconcile :: "st \<Rightarrow> (nat \<times> nat \<times> timer) list" where
  "new_reconcile s = [(nextTimer s, reconcileDebounce, ReconcileTimer)]"

lemma handleRouteEvent_effect:
  "timers (handleRouteEvent os u s) =
     timers s @ (if route_relevant os u s \<and> \<not> reconcileScheduled s then new_reconcile s else [])"
  "reconcileScheduled (handleRouteEvent os u s) = (reconcileScheduled s \<or> route_relevant os u s)"
  "handleRouteEvent os u s = s\<lparr>clk := clk (handleRouteEvent os u s), timers := timers (handleRouteEvent os u s),
     nextTimer := nextTimer (handleRouteEvent os u s), reconcileScheduled := reconcileScheduled (handleRouteEvent os u s)\<rparr>"
proof -
  obtain r t where g: "ifaceByIndex os (rt_LinkIndex (ru_Route u)) s = (r, t)" by (metis surj_pair)
  then have t: "t = tick s" by (auto simp: ifaceByIndex_def range_interfaces_def)
  show "timers (handleRouteEvent os u s) =
     timers s @ (if route_relevant os u s \<and> \<not> reconcileScheduled s then new_reconcile s else [])"
  "reconcileScheduled (handleRouteEvent os u s) = (reconcileScheduled s \<or> route_relevant os u s)"
  "handleRouteEvent os u s = s\<lparr>clk := clk (handleRouteEvent os u s), timers := timers (handleRouteEvent os u s),
     nextTimer := nextTimer (handleRouteEvent os u s), reconcileScheduled := reconcileScheduled (handleRouteEvent os u s)\<rparr>"
    by (auto simp: handleRouteEvent_def route_relevant_def g t tick_def scheduleReconcile_def AfterFunc_def new_reconcile_def
        split: option.split)
qed

lemma route_burst:
  "reconcileScheduled s \<Longrightarrow> timers (fold (handleRouteEvent os) us s) = timers s \<and>
   reconcileScheduled (fold (handleRouteEvent os) us s)"
  by (induction us arbitrary: s) (simp_all add: handleRouteEvent_effect(1,2))

text \<open>
  C39. Reconciliation is debounced. A route event schedules it exactly if a host route of the daemon's own
  metric was deleted on a relay interface and none is scheduled yet. Apart from the timers, the counter
  their identifiers come from, the flag and the interaction counter it leaves the whole state as it is:
  no call is made, nothing is logged, and no interface, mirrored key, channel or reader changes. A burst
  of any number of route events arms at most one timer of two seconds, and none while one is scheduled.
\<close>

theorem handleRouteEvent_debounced:
  "timers (handleRouteEvent os u s) =
     timers s @ (if route_relevant os u s \<and> \<not> reconcileScheduled s then new_reconcile s else []) \<and>
   reconcileScheduled (handleRouteEvent os u s) = (reconcileScheduled s \<or> route_relevant os u s) \<and>
   handleRouteEvent os u s = s\<lparr>clk := clk (handleRouteEvent os u s), timers := timers (handleRouteEvent os u s),
     nextTimer := nextTimer (handleRouteEvent os u s), reconcileScheduled := reconcileScheduled (handleRouteEvent os u s)\<rparr> \<and>
   timers (fold (handleRouteEvent os) (u # us) s) \<in>
     {timers s} \<union> {timers s @ [(n, reconcileDebounce, ReconcileTimer)] | n. \<not> reconcileScheduled s \<and>
        reconcileScheduled (fold (handleRouteEvent os) (u # us) s)}"
proof -
  have burst: "timers (fold (handleRouteEvent os) us s) \<in>
     {timers s} \<union> {timers s @ [(n, reconcileDebounce, ReconcileTimer)] | n. \<not> reconcileScheduled s \<and>
        reconcileScheduled (fold (handleRouteEvent os) us s)}" for us
  proof (induction us arbitrary: s)
    case (Cons v us)
    show ?case
    proof (cases "reconcileScheduled (handleRouteEvent os v s)")
      case True
      then show ?thesis
        using route_burst [OF True, of os us] handleRouteEvent_effect(1, 2) [of os v s]
        by (auto simp: new_reconcile_def)
    next
      case False
      then have "timers (handleRouteEvent os v s) = timers s" "\<not> reconcileScheduled s"
        using handleRouteEvent_effect(1, 2) [of os v s] by auto
      then show ?thesis using Cons.IH [of "handleRouteEvent os v s"] by auto
    qed
  qed simp
  show ?thesis
    using handleRouteEvent_effect(1,2) [of os u s] handleRouteEvent_effect(3) [of os u s] burst [of "u # us"]
    by (intro conjI)
qed

text \<open>What reconciliation has to put back: pairs of an address and the index it lives behind.\<close>

definition own_addrs :: "st \<Rightarrow> ptr \<Rightarrow> addr set" where
  "own_addrs s p = {Addr a | a. a \<in> set (Addr6 (heap s p)) \<and> own_mirrorable (heap s p) (Addr a)}"

definition behind_known :: "st \<Rightarrow> (addr \<times> int) set" where
  "behind_known s = {k. \<exists>p \<in> registered s. Ifindex (heap s p) = snd k}"

definition mirror_pairs :: "st \<Rightarrow> (addr \<times> int) set" where
  "mirror_pairs s = (\<Union>p \<in> registered s. own_addrs s p \<times> {Ifindex (heap s p)}) \<union>
     (set (mirroredNeighs s) \<inter> behind_known s)"

definition proxy_entries :: "st \<Rightarrow> (addr \<times> int) set \<Rightarrow> proxies" where
  "proxy_entries s K = {(asSlice a, j) | a i j. (a, i) \<in> K \<and> j \<in> mirror_targets s i}"

lemma proxy_entries_Un: "proxy_entries s (A \<union> B) = proxy_entries s A \<union> proxy_entries s B"
  by (auto simp: proxy_entries_def)

lemma proxy_entries_one: "proxy_entries s {(a, i)} = {asSlice a} \<times> mirror_targets s i"
  by (auto simp: proxy_entries_def)

lemma proxies_reassert_addrs:
  assumes "accepted os" "NDP (heap s p) = ModeRelay"
  shows "proxy_table (trace (fold (reassert_addr os p) as s)) = proxy_table (trace s) \<union>
    proxy_entries s ({Addr a | a. a \<in> set as \<and> own_mirrorable (heap s p) (Addr a)} \<times> {Ifindex (heap s p)})"
  using assms(2)
proof (induction as arbitrary: s)
  case (Cons a as)
  have "proxy_table (trace (reassert_addr os p a s)) = proxy_table (trace s) \<union>
      (if own_mirrorable (heap s p) (Addr a) then {asSlice (Addr a)} else {}) \<times> mirror_targets s (Ifindex (heap s p))"
    using Cons.prems by (auto simp: reassert_addr_def own_mirrorable_def proxies_add [OF assms(1)])
  then show ?case using Cons.IH [of "reassert_addr os p a s"] Cons.prems by (auto simp: proxy_entries_def)
qed (simp add: proxy_entries_def)

lemma proxies_reassert_own:
  assumes "accepted os"
  shows "proxy_table (trace (fold (reassert_own os) cs s)) = proxy_table (trace s) \<union>
    proxy_entries s (\<Union>p \<in> set cs. own_addrs s p \<times> {Ifindex (heap s p)})"
proof (induction cs arbitrary: s)
  case (Cons c cs)
  have "own_addrs s c = {}" if "NDP (heap s c) \<noteq> ModeRelay"
    using that by (simp add: own_addrs_def own_mirrorable_def)
  then have "proxy_table (trace (reassert_own os c s)) = proxy_table (trace s) \<union>
      proxy_entries s (own_addrs s c \<times> {Ifindex (heap s c)})"
    using proxies_reassert_addrs [OF assms, of s c "Addr6 (heap s c)"]
    by (cases "NDP (heap s c) = ModeRelay")
      (simp_all add: reassert_own_def flip: own_addrs_def, simp add: proxy_entries_def)
  moreover have "own_addrs (reassert_own os c s) q = own_addrs s q"
    "proxy_entries (reassert_own os c s) K = proxy_entries s K" for q K
    by (simp_all add: own_addrs_def proxy_entries_def)
  ultimately show ?case
    using Cons.IH [of "reassert_own os c s"] by (simp add: proxy_entries_Un Un_assoc)
qed (simp add: proxy_entries_def)

lemma proxies_reassert_keys:
  assumes "accepted os"
  shows "proxy_table (trace (fold (reassert_key os) ks s)) = proxy_table (trace s) \<union>
    proxy_entries s (set ks \<inter> behind_known s)"
proof (induction ks arbitrary: s)
  case (Cons k ks)
  obtain a i where k: "k = (a, i)" by (cases k)
  have "proxy_table (trace (reassert_key os k s)) = proxy_table (trace s) \<union> proxy_entries s ({k} \<inter> behind_known s)"
  proof (cases "fst (ifaceByIndex os i s)")
    case None
    then have "\<not> (\<exists>p \<in> registered s. Ifindex (heap s p) = i)"
      using ifaceByIndex_None [of os i s] by (auto simp: registered_def)
    then show ?thesis using None by (simp add: k reassert_key_def case_prod_beta behind_known_def proxy_entries_def)
  next
    case (Some p)
    then have p: "p \<in> registered s" "Ifindex (heap s p) = i"
      using ifaceByIndex_Some [OF Some] by (simp_all add: registered_def)
    then have "{k} \<inter> behind_known s = {(a, i)}" by (auto simp: k behind_known_def)
    then show ?thesis
      using p Some proxies_add [OF assms, of a p "snd (ifaceByIndex os i s)"]
      by (simp add: k reassert_key_def case_prod_beta proxy_entries_one)
  qed
  moreover have "proxy_entries (reassert_key os k s) K = proxy_entries s K"
    "behind_known (reassert_key os k s) = behind_known s" for K
    by (simp_all add: proxy_entries_def behind_known_def)
  moreover have "set (k # ks) \<inter> behind_known s = ({k} \<inter> behind_known s) \<union> (set ks \<inter> behind_known s)" by auto
  ultimately show ?case
    using Cons.IH [of "reassert_key os k s"] by (simp add: proxy_entries_Un Un_assoc)
qed (simp add: proxy_entries_def)

text \<open>
  Host routes that are put back: a table changes only at the addresses of \<open>K\<close>, to an interface \<open>K\<close> gives for
  the address, and every address of \<open>D\<close> ends up with such a route.
\<close>

definition route_adds :: "(addr \<times> int) set \<Rightarrow> addr set \<Rightarrow> routes \<Rightarrow> routes \<Rightarrow> bool" where
  "route_adds K D R R' =
     ((\<forall>k. R' k = R k \<or> (\<exists>a i. (a, i) \<in> K \<and> k = host_key a \<and> R' k = Some i)) \<and>
      (\<forall>a \<in> D. \<exists>b i. (b, i) \<in> K \<and> host_key b = host_key a \<and> R' (host_key a) = Some i))"

lemma route_adds_refl: "route_adds K {} R R"
  by (simp add: route_adds_def)

lemma route_adds_trans:
  assumes "route_adds K D R R'" "route_adds K D' R' R''"
  shows "route_adds K (D \<union> D') R R''"
proof -
  have 1: "R'' k = R' k \<or> (\<exists>a i. (a, i) \<in> K \<and> k = host_key a \<and> R'' k = Some i)" for k
    using assms(2) unfolding route_adds_def by blast
  have "\<exists>b i. (b, i) \<in> K \<and> host_key b = host_key a \<and> R'' (host_key a) = Some i" if "a \<in> D" for a
    using 1 [of "host_key a"] assms(1) that unfolding route_adds_def by metis
  moreover have "R'' k = R k \<or> (\<exists>a i. (a, i) \<in> K \<and> k = host_key a \<and> R'' k = Some i)" for k
    using 1 [of k] assms(1) unfolding route_adds_def by metis
  ultimately show ?thesis using assms(2) unfolding route_adds_def by blast
qed

lemma route_adds_mono: "route_adds K D R R' \<Longrightarrow> D' \<subseteq> D \<Longrightarrow> route_adds K D' R R'"
  unfolding route_adds_def by blast

lemma route_adds_fold:
  assumes "\<And>x s. x \<in> set xs \<Longrightarrow> J s \<Longrightarrow> J (f x s) \<and> route_adds K (D x) (rt s) (rt (f x s))" "J s"
  shows "J (fold f xs s) \<and> route_adds K (\<Union>x \<in> set xs. D x) (rt s) (rt (fold f xs s))"
  using assms
proof (induction xs arbitrary: s)
  case (Cons x xs)
  have x: "J (f x s)" "route_adds K (D x) (rt s) (rt (f x s))" using Cons.prems by simp_all
  moreover have "J (fold f xs (f x s)) \<and> route_adds K (\<Union>x \<in> set xs. D x) (rt (f x s)) (rt (fold f xs (f x s)))"
    using Cons.IH [of "f x s"] Cons.prems(1) x(1) by simp
  ultimately show ?case using route_adds_trans [of K "D x"] by simp
qed (simp add: route_adds_refl)

definition routed :: "Interface \<Rightarrow> addr \<Rightarrow> bool" where
  "routed i a = (LearnRoutes i \<and> \<not> isLinkLocalUnicast a)"

lemma routes_ndpMirrorAddr:
  assumes "accepted os" "routed (heap s p) a \<Longrightarrow> (a, Ifindex (heap s p)) \<in> K"
  shows "route_adds K (if routed (heap s p) a then {a} else {})
    (route_table (trace s)) (route_table (trace (ndpMirrorAddr os a p True s)))"
proof -
  have "route_table (trace (ndpMirrorAddr os a p True s)) =
      (if routed (heap s p) a then (route_table (trace s))(host_key a \<mapsto> Ifindex (heap s p)) else route_table (trace s))"
    using ndpMirrorAddr_tables [OF assms(1), of a p True s] by (simp add: tables_def mirror_spec_def routed_def)
  with assms(2) show ?thesis by (auto simp: route_adds_def)
qed

text \<open>The routes that may and those that have to be there.\<close>

definition routed_pairs :: "st \<Rightarrow> (addr \<times> int) set" where
  "routed_pairs s = {(a, i) \<in> mirror_pairs s. \<exists>p \<in> registered s. Ifindex (heap s p) = i \<and> routed (heap s p) a}"

definition sure_routes :: "st \<Rightarrow> addr set" where
  "sure_routes s = {a. \<exists>i. (a, i) \<in> mirror_pairs s \<and>
     (\<forall>p \<in> registered s. Ifindex (heap s p) = i \<longrightarrow> routed (heap s p) a)}"

lemma routes_reassert_own:
  assumes "accepted os" "heap x = heap s" "interfaces x = interfaces s" "p \<in> registered s"
  shows "route_adds (routed_pairs s) {a \<in> own_addrs s p. routed (heap s p) a}
    (route_table (trace x)) (route_table (trace (reassert_own os p x)))"
proof (cases "NDP (heap s p) = ModeRelay")
  case True
  let ?J = "\<lambda>y. heap y = heap s \<and> interfaces y = interfaces s"
  let ?D = "\<lambda>a. if own_mirrorable (heap s p) (Addr a) \<and> routed (heap s p) (Addr a) then {Addr a} else {}"
  have "?J (reassert_addr os p a y) \<and>
      route_adds (routed_pairs s) (?D a) (route_table (trace y)) (route_table (trace (reassert_addr os p a y)))"
    if "a \<in> set (Addr6 (heap s p))" "?J y" for a y
  proof (cases "own_mirrorable (heap s p) (Addr a)")
    case own: True
    then have "Addr a \<in> own_addrs s p" using that(1) by (auto simp: own_addrs_def)
    then have "routed (heap y p) (Addr a) \<Longrightarrow> (Addr a, Ifindex (heap y p)) \<in> routed_pairs s"
      using assms(4) that(2) by (auto simp: routed_pairs_def mirror_pairs_def)
    from routes_ndpMirrorAddr [OF assms(1) this] own that(2) show ?thesis
      by (auto simp: reassert_addr_def own_mirrorable_def)
  next
    case False
    then have "reassert_addr os p a y = y" using True that(2) by (auto simp: reassert_addr_def own_mirrorable_def)
    then show ?thesis using False that(2) by (simp add: route_adds_refl)
  qed
  then have "route_adds (routed_pairs s) (\<Union>a \<in> set (Addr6 (heap s p)). ?D a) (route_table (trace x))
      (route_table (trace (fold (reassert_addr os p) (Addr6 (heap s p)) x)))"
    using route_adds_fold [where J = ?J and xs = "Addr6 (heap s p)" and f = "reassert_addr os p" and D = ?D and s = x
        and rt = "\<lambda>y. route_table (trace y)" and K = "routed_pairs s"] assms(2, 3) by blast
  then show ?thesis
    using True assms(2) by (auto simp: reassert_own_def own_addrs_def elim!: route_adds_mono)
next
  case False
  then have "own_addrs s p = {}" by (simp add: own_addrs_def own_mirrorable_def)
  then show ?thesis using False assms(2) by (simp add: reassert_own_def route_adds_refl)
qed

lemma routes_reassert_key:
  assumes "accepted os" "heap x = heap s" "interfaces x = interfaces s" "k \<in> set (mirroredNeighs s)"
  shows "route_adds (routed_pairs s) ({fst k} \<inter> {a. (a, snd k) \<in> behind_known s \<and>
      (\<forall>p \<in> registered s. Ifindex (heap s p) = snd k \<longrightarrow> routed (heap s p) a)})
    (route_table (trace x)) (route_table (trace (reassert_key os k x)))"
proof (cases "fst (ifaceByIndex os (snd k) x)")
  case None
  then have "(fst k, snd k) \<notin> behind_known s"
    using ifaceByIndex_None [of os "snd k" x] assms(2, 3) by (auto simp: behind_known_def registered_def)
  then have e: "{fst k} \<inter> {a. (a, snd k) \<in> behind_known s \<and> Q a} = {}" for Q by auto
  have "route_table (trace (reassert_key os k x)) = route_table (trace x)"
    using None by (simp add: reassert_key_def case_prod_beta)
  then show ?thesis unfolding e by (simp add: route_adds_refl)
next
  case (Some p)
  let ?y = "snd (ifaceByIndex os (snd k) x)"
  have p: "p \<in> registered s" "Ifindex (heap s p) = snd k"
    using ifaceByIndex_Some [OF Some] assms(2, 3) by (simp_all add: registered_def)
  then have "routed (heap ?y p) (fst k) \<Longrightarrow> (fst k, Ifindex (heap ?y p)) \<in> routed_pairs s"
    using assms(2, 4) by (cases k) (auto simp: routed_pairs_def mirror_pairs_def behind_known_def)
  from routes_ndpMirrorAddr [OF assms(1) this] show ?thesis
    using Some p assms(2) by (auto simp: reassert_key_def case_prod_beta elim!: route_adds_mono split: if_splits)
qed

lemma reassert_mirrored [simp]:
  "mirroredNeighs (reassert_proxy os p s) = mirroredNeighs s" "mirroredNeighs (reassert_own os p s) = mirroredNeighs s"
  "mirroredNeighs (reassert_key os k s) = mirroredNeighs s"
proof -
  show "mirroredNeighs (reassert_proxy os p s) = mirroredNeighs s"
    by (simp add: reassert_proxy_def case_prod_beta)
  have "mirroredNeighs (reassert_addr os p a x) = mirroredNeighs x" for a x by (simp add: reassert_addr_def)
  then show "mirroredNeighs (reassert_own os p s) = mirroredNeighs s"
    by (simp add: reassert_own_def fold_frame [where obs = mirroredNeighs])
  have "mirroredNeighs (snd (ifaceByIndex os (snd k) s)) = mirroredNeighs s" by simp
  then show "mirroredNeighs (reassert_key os k s) = mirroredNeighs s"
    by (simp add: reassert_key_def case_prod_beta split: option.split)
qed

text \<open>The same for the host routes.\<close>

lemma routes_reconcile:
  assumes "accepted os"
  shows "route_adds (routed_pairs s) (sure_routes s) (route_table (trace s)) (route_table (trace (reconcileKernelState os s)))"
proof -
  let ?K = "routed_pairs s" and ?rt = "\<lambda>y. route_table (trace y)"
  let ?J = "\<lambda>y. heap y = heap s \<and> interfaces y = interfaces s \<and> mirroredNeighs y = mirroredNeighs s"
  let ?D1 = "\<lambda>p. {a \<in> own_addrs s p. routed (heap s p) a}"
  let ?D2 = "\<lambda>k. {fst k} \<inter> {a. (a, snd k) \<in> behind_known s \<and>
      (\<forall>p \<in> registered s. Ifindex (heap s p) = snd k \<longrightarrow> routed (heap s p) a)}"
  define s1 where "s1 = fold (reassert_proxy os) (fst (range_interfaces os s)) (snd (range_interfaces os s))"
  define s2 where "s2 = fold (reassert_own os) (fst (range_interfaces os s1)) (snd (range_interfaces os s1))"
  have "?rt (reassert_proxy os p x) = ?rt x" for p x by (simp add: reassert_proxy_def case_prod_beta)
  then have s1: "?rt s1 = ?rt s" "?J s1"
    by (simp_all add: s1_def fold_frame [where obs = ?rt] fold_frame [where obs = heap] fold_frame [where obs = interfaces]
        fold_frame [where obs = mirroredNeighs])
  have r: "set (fst (range_interfaces os s1)) = registered s" using s1(2) by (simp add: registered_def)
  have "?J s2 \<and> route_adds ?K (\<Union>p \<in> set (fst (range_interfaces os s1)). ?D1 p) (?rt (snd (range_interfaces os s1))) (?rt s2)"
    unfolding s2_def
    by (rule route_adds_fold) (use s1 in \<open>auto simp: r simp del: set_range_interfaces intro!: routes_reassert_own [OF assms]\<close>)
  then have s2: "?J s2" "route_adds ?K (\<Union>p \<in> registered s. ?D1 p) (?rt s) (?rt s2)"
    using s1 by (simp_all add: registered_def)
  have "?J (reconcileKernelState os s) \<and> route_adds ?K (\<Union>k \<in> set (fst (range_mirrored os s2)). ?D2 k)
      (?rt (snd (range_mirrored os s2))) (?rt (reconcileKernelState os s))"
    unfolding reconcileKernelState_def Let_def case_prod_beta s1_def [symmetric] s2_def [symmetric]
    by (rule route_adds_fold) (use s2(1) in \<open>auto simp: range_mirrored_def intro!: routes_reassert_key [OF assms]\<close>)
  then have "route_adds ?K (\<Union>k \<in> set (mirroredNeighs s). ?D2 k) (?rt s2) (?rt (reconcileKernelState os s))"
    using s2(1) by (simp add: range_mirrored_def)
  from route_adds_trans [OF s2(2) this] show ?thesis
    by (rule route_adds_mono) (fastforce simp: sure_routes_def mirror_pairs_def)
qed

text \<open>
  C11. Reconciliation restores what an outside flush removed, and nothing else: on a kernel that accepts
  the calls, \<^verbatim>\<open>reconcileKernelState\<close> adds exactly the proxy-NDP entries of every relay interface's own
  mirrored addresses and of every remembered neighbour behind a known interface, on each of the other
  master relay interfaces, and removes none. Every such address behind interfaces that learn routes ends
  up with a host route that points to an interface the address lives behind, whether there was none or
  one that pointed elsewhere, and no other route changes. Nothing the daemon owns changes.
\<close>

theorem reconcileKernelState_restores:
  fixes os :: os and s :: st
  assumes "accepted os"
  defines "R \<equiv> route_table (trace s)" and "R' \<equiv> route_table (trace (reconcileKernelState os s))"
  shows "proxy_table (trace (reconcileKernelState os s)) = proxy_table (trace s) \<union> proxy_entries s (mirror_pairs s) \<and>
    (\<forall>k. R' k = R k \<or> (\<exists>a i. (a, i) \<in> routed_pairs s \<and> k = host_key a \<and> R' k = Some i)) \<and>
    (\<forall>a \<in> sure_routes s. \<exists>b i. (b, i) \<in> routed_pairs s \<and> host_key b = host_key a \<and> R' (host_key a) = Some i) \<and>
    own_state (reconcileKernelState os s) = own_state s"
proof -
  define s1 where "s1 = fold (reassert_proxy os) (fst (range_interfaces os s)) (snd (range_interfaces os s))"
  define s2 where "s2 = fold (reassert_own os) (fst (range_interfaces os s1)) (snd (range_interfaces os s1))"
  have R: "reconcileKernelState os s = fold (reassert_key os) (fst (range_mirrored os s2)) (snd (range_mirrored os s2))"
    by (simp add: reconcileKernelState_def Let_def case_prod_beta s1_def s2_def)
  have "proxy_table (trace (reassert_proxy os p x)) = proxy_table (trace x)" for p x
    by (simp add: reassert_proxy_def case_prod_beta)
  then have p1: "proxy_table (trace s1) = proxy_table (trace s)"
    by (simp add: s1_def fold_frame [where obs = "\<lambda>s. proxy_table (trace s)"])
  have f1: "heap s1 = heap s" "interfaces s1 = interfaces s" "mirroredNeighs s1 = mirroredNeighs s"
    and f2: "heap s2 = heap s1" "interfaces s2 = interfaces s1" "mirroredNeighs s2 = mirroredNeighs s1"
    by (simp_all add: s1_def s2_def fold_frame [where obs = heap] fold_frame [where obs = interfaces]
        fold_frame [where obs = mirroredNeighs] reassert_mirrored)
  have e: "proxy_entries x K = proxy_entries s K" "own_addrs x q = own_addrs s q" "registered x = registered s"
    "behind_known x = behind_known s"
    if "heap x = heap s" "interfaces x = interfaces s" for x K q
    using that by (simp_all add: proxy_entries_def own_addrs_def mirror_targets_def registered_def behind_known_def)
  let ?t1 = "snd (range_interfaces os s1)" and ?t2 = "snd (range_mirrored os s2)"
  have e1: "proxy_entries ?t1 K = proxy_entries s K" "own_addrs ?t1 q = own_addrs s q"
    and e2: "proxy_entries ?t2 K = proxy_entries s K" "behind_known ?t2 = behind_known s" for K q
    by (rule e; simp add: f1 f2)+
  have p2: "proxy_table (trace s2) = proxy_table (trace s) \<union>
      proxy_entries s (\<Union>p \<in> registered s. own_addrs s p \<times> {Ifindex (heap s p)})"
    using proxies_reassert_own [OF assms(1), of "fst (range_interfaces os s1)" ?t1]
    by (simp add: s2_def p1 f1 e1 flip: registered_def)
  have "proxy_table (trace (reconcileKernelState os s)) = proxy_table (trace s2) \<union>
      proxy_entries s (set (mirroredNeighs s) \<inter> behind_known s)"
    using proxies_reassert_keys [OF assms(1), of "fst (range_mirrored os s2)" ?t2]
    by (simp add: R e2) (simp add: range_mirrored_def f1 f2)
  with p2 have "proxy_table (trace (reconcileKernelState os s)) = proxy_table (trace s) \<union> proxy_entries s (mirror_pairs s)"
    by (simp add: mirror_pairs_def proxy_entries_Un Un_assoc)
  moreover have "mirroredNeighs (reconcileKernelState os s) = mirroredNeighs s"
    by (simp add: R f1 f2 fold_frame [where obs = mirroredNeighs] range_mirrored_def)
  moreover have "own_rest (reconcileKernelState os s) = own_rest s" by simp
  moreover note routes_reconcile [OF assms(1), of s, unfolded route_adds_def, folded R_def R'_def]
  ultimately show ?thesis using own_rest_eq by blast
qed

text \<open>
  C11 after the proxy entry of a remembered host was lost: the entry is put back, and the host route,
  which is pointing to another link, is set to the right one.
\<close>

theorem reconcileKernelState_restores_witness:
  "let s = mirrored_add (demo_host, 3) demo_st
       \<lparr>trace := [Did (RouteReplace \<lparr>rt_LinkIndex = 9, rt_Dst = Some \<lparr>net_IP = asSlice demo_host, net_Mask = cidrMask128 128\<rparr>,
          rt_Priority = ourRouteMetric, rt_Table = RT_TABLE_MAIN, rt_Scope = SCOPE_LINK, rt_Protocol = RTPROT_STATIC, rt_Gw = []\<rparr>) None]\<rparr>;
       t = reconcileKernelState demo_os s
   in route_table (trace s) (host_key demo_host) = Some 9 \<and> route_table (trace t) (host_key demo_host) = Some 3 \<and>
      (asSlice demo_host, 2) \<in> proxy_table (trace t)"
proof -
  let ?s = "mirrored_add (demo_host, 3) demo_st
       \<lparr>trace := [Did (RouteReplace \<lparr>rt_LinkIndex = 9, rt_Dst = Some \<lparr>net_IP = asSlice demo_host, net_Mask = cidrMask128 128\<rparr>,
          rt_Priority = ourRouteMetric, rt_Table = RT_TABLE_MAIN, rt_Scope = SCOPE_LINK, rt_Protocol = RTPROT_STATIC, rt_Gw = []\<rparr>) None]\<rparr>"
  let ?t = "reconcileKernelState demo_os ?s"
  note C = reconcileKernelState_restores [OF demo_accepts, where s = ?s]
  have r: "registered ?s = {0, 1}" "heap ?s = heap demo_st" by (auto simp: registered_def)
  have w: "Ifindex demo_wan = 2" by (simp add: demo_wan_def)
  have nl: "\<not> isLinkLocalUnicast demo_host" by (simp add: demo_host_def isLinkLocalUnicast_def v4InV6Prefix_def)
  have mp: "mirror_pairs ?s = {(demo_host, 3), (demo_lan_addr, 3)}"
  proof -
    have "own_addrs ?s 0 = {}" by (simp add: own_addrs_def demo_wan_def demo_defs)
    moreover have "own_addrs ?s 1 = {demo_lan_addr}"
      by (auto simp: own_addrs_def own_mirrorable_def demo_defs isLinkLocalUnicast_def isLoopback_def isMulticast_def v4InV6Prefix_def
          Cons_replicate_eq)
    ultimately show ?thesis
      unfolding mirror_pairs_def r by (auto simp: behind_known_def r demo_lan_fields)
  qed
  have "(demo_host, 3) \<in> mirror_pairs ?s" by (simp add: mp)
  moreover have "2 \<in> mirror_targets ?s 3" by (auto simp: mirror_targets_def demo_wan_def demo_defs)
  ultimately have "(asSlice demo_host, 2) \<in> proxy_entries ?s (mirror_pairs ?s)"
    unfolding proxy_entries_def by blast
  moreover have "demo_host \<in> sure_routes ?s"
    unfolding sure_routes_def mp r using nl by (auto simp: routed_def demo_lan_fields w)
  moreover have "i = 3" if "(b, i) \<in> routed_pairs ?s" for b i
    using that mp by (auto simp: routed_pairs_def)
  moreover have "route_table (trace ?s) (host_key demo_host) = Some 9"
    by (simp add: route_table_def route_key_def host_key_def)
  ultimately show ?thesis using C by (auto simp: Let_def)
qed

lemma demo_ifname: "fst (ifaceByIfname demo_os ''eth1'' demo_st) = Some 1"
  by (simp add: ifaceByIfname_def range_interfaces_def demo_defs)

theorem handleLinkEvent_deleted_witness:
  "\<not> has_sock (handleLinkEvent demo_os \<lparr>lu_Name = ''eth1'', lu_Type = RTM_DELLINK, lu_Index = 3, lu_Flags = 0\<rparr> demo_st) 1 NdpSvc"
  using handleLinkEvent_deleted [OF demo_daemon,
      where u = "\<lparr>lu_Name = ''eth1'', lu_Type = RTM_DELLINK, lu_Index = 3, lu_Flags = 0\<rparr>" and p = 1]
    demo_ifname by (auto simp: demo_lan_fields)

theorem handleLinkEvent_carrier_witness:
  "\<not> has_sock (handleLinkEvent demo_os \<lparr>lu_Name = ''eth1'', lu_Type = 16, lu_Index = 3, lu_Flags = 0\<rparr> demo_st) 1 NdpSvc"
proof -
  have "Running demo_lan" by (simp add: demo_defs)
  then show ?thesis
    using handleLinkEvent_carrier [OF demo_daemon,
        where u = "\<lparr>lu_Name = ''eth1'', lu_Type = 16, lu_Index = 3, lu_Flags = 0\<rparr>" and p = 1]
      demo_ifname by (auto simp: demo_lan_fields)
qed

text \<open>The downstream link of the example comes back with index 9; the host behind index 3 is forgotten.\<close>

theorem handleLinkEvent_reindexed_witness:
  "let t = handleLinkEvent demo_os \<lparr>lu_Name = ''eth1'', lu_Type = 16, lu_Index = 9, lu_Flags = 64\<rparr>
         (mirrored_add (demo_host, 3) demo_st)
   in Ifindex (heap t 1) = 9 \<and> (demo_host, 3) \<notin> set (mirroredNeighs t) \<and> 5 \<in> set (closedChans t) \<and> has_sock t 1 NdpSvc"
proof -
  let ?s = "mirrored_add (demo_host, 3) demo_st"
  let ?u = "\<lparr>lu_Name = ''eth1'', lu_Type = 16, lu_Index = 9, lu_Flags = 64\<rparr>"
  have d: "daemon_ok ?s" using demo_daemon by simp
  have f: "fst (ifaceByIfname demo_os (lu_Name ?u) ?s) = Some 1"
    by (simp add: ifaceByIfname_def range_interfaces_def demo_defs)
  have i: "lu_Type ?u \<noteq> RTM_DELLINK" "Ifindex (heap ?s 1) \<noteq> lu_Index ?u" by (simp_all add: demo_lan_fields)
  let ?t = "handleLinkEvent demo_os ?u ?s"
  note R = handleLinkEvent_reindexed [OF d f i]
  have k: "socks (socket_table ?s) (1, NdpSvc) = Some (5, [9, 10], 1)"
    by (simp add: socket_table_def demo_sock_of del: sock_of.simps)
  have m: "mode_of NdpSvc (heap ?s 1) = ModeRelay" by (simp add: demo_lan_fields)
  from R have "\<forall>k. has_sock ?s 1 k \<longrightarrow> fst (the (socks (socket_table ?s) (1, k))) \<in> set (closedChans ?t)" by blast
  from spec [OF this, of NdpSvc] have 5: "5 \<in> set (closedChans ?t)" unfolding k by simp
  from R have "\<forall>k. mode_of k (heap ?s 1) = ModeRelay \<longrightarrow> has_sock ?t 1 k"
    using demo_willing by simp
  then have h: "has_sock ?t 1 NdpSvc" using m by blast
  from R have "{k \<in> set (mirroredNeighs ?t). snd k \<noteq> 9} = {k \<in> set (mirroredNeighs ?s). snd k \<noteq> 3 \<and> snd k \<noteq> 9}"
    by (simp add: demo_lan_fields)
  moreover have "(demo_host, 3) \<notin> {k \<in> set (mirroredNeighs ?s). snd k \<noteq> 3 \<and> snd k \<noteq> 9}" by simp
  ultimately have "(demo_host, 3) \<notin> {k \<in> set (mirroredNeighs ?t). snd k \<noteq> 9}" by (simp only: not_False_eq_True)
  then have "(demo_host, 3) \<notin> set (mirroredNeighs ?t)" by simp
  then show ?thesis using R 5 h unfolding Let_def by simp
qed

section \<open>The sweep\<close>













lemma tables_probeNeighbor [simp]: "tables (probeNeighbor os a i s) = tables s"
  by (simp add: tables_def probeNeighbor_def Let_def case_prod_beta)

lemma tables_mirrored_del [simp]: "tables (mirrored_del k s) = tables s" "tables (Noticef m s) = tables s"
  by (simp_all add: tables_def mirrored_del_def)













end
