(* ===== verification/Timing.thy ===== *)
theory Timing
  imports Netlink
begin

text \<open>
  The timers of the daemon, across all its handlers: \<^verbatim>\<open>time.AfterFunc\<close> is called by the solicitation
  machinery of \<^verbatim>\<open>router.go\<close>, by the debounced reconciliation and by the periodic sweep of \<^verbatim>\<open>netlink.go\<close>.
  An interface says what an invariant over the timers has to promise about the primitive operations;
  every handler keeps such an invariant, which is proved once.
\<close>

section \<open>Invariants kept by every handler\<close>

definition rs_part :: "Interface \<Rightarrow> nat option \<times> int \<times> int" where
  "rs_part i = (rsTimer i, rsTimerN i, raSent i)"

definition socks_part :: "Interface \<Rightarrow> routerSock option \<times> dhcpSock option \<times> ndpSock option" where
  "socks_part i = (router i, dhcp i, ndp i)"

definition bump :: "ptr \<Rightarrow> st \<Rightarrow> st" where
  "bump p s = arm_rsTimer 100 p (rsTimerN (heap s p) + 1) (upd p (\<lambda>i. i\<lparr>rsTimerN := rsTimerN i + 1\<rparr>) s)"

definition new_object :: "Interface \<Rightarrow> st \<Rightarrow> st" where
  "new_object i s = s\<lparr>heap := (heap s)(nextPtr s := i), nextPtr := Suc (nextPtr s)\<rparr>"

lemma go_simps [simp]:
  "heap (go r s) = heap s" "nextPtr (go r s) = nextPtr s" "heap (snd (make_chan s)) = heap s"
  "nextPtr (snd (make_chan s)) = nextPtr s"
  by (simp_all add: go_def make_chan_def)

text \<open>
  What an invariant has to promise about the operations that every handler is made of: it ignores the
  registry and the configuration of the objects, and the three services keep it.
\<close>

locale handler_base = quiet_mirror I for I :: "st \<Rightarrow> bool" +
  fixes os :: os
  assumes I_interfaces: "I (s\<lparr>interfaces := is\<rparr>) = I s"
    and I_fields: "(\<And>i. rs_part (f i) = rs_part i \<and> socks_part (f i) = socks_part i) \<Longrightarrow> I (upd p f s) = I s"
    and I_router: "I s \<Longrightarrow> p < nextPtr s \<Longrightarrow> I (snd (routerSetup os p e s))"
    and I_dhcp: "I s \<Longrightarrow> p < nextPtr s \<Longrightarrow> I (snd (dhcpv6Setup os p e s))"
    and I_ndp: "I s \<Longrightarrow> p < nextPtr s \<Longrightarrow> I (snd (ndpSetup os p e s))"
    and I_stop: "I s \<Longrightarrow> I (stop_rsTimer p s)"
    and I_level: "(cfg_LogLevelCmdline s \<Longrightarrow> logLevel ll = logLevel (lg s)) \<Longrightarrow> I (s\<lparr>lg := ll\<rparr>) = I s"
    and I_new: "I s \<Longrightarrow> rs_part i = (None, 0, 0) \<Longrightarrow> socks_part i = (None, None, None) \<Longrightarrow> I (new_object i s)"
begin

lemma I_disableServices: "I s \<Longrightarrow> p < nextPtr s \<Longrightarrow> I (disableServices os p s)"
  by (simp add: disableServices_def I_router I_dhcp I_ndp)

lemma I_reloadServices: "I s \<Longrightarrow> p < nextPtr s \<Longrightarrow> I (reloadServices os p s)"
  by (simp add: reloadServices_def Let_def I_router I_dhcp I_ndp I_disableServices)

lemma I_closeInterface: "I s \<Longrightarrow> p < nextPtr s \<Longrightarrow> I (closeInterface os p s)"
  by (simp add: closeInterface_def Let_def I_stop I_disableServices I_interfaces)

lemma I_refresh [simp]: "I (refreshInterfaceAddresses os p s) = I s"
proof -
  have "I (upd p updateLinkLocalState x) = I x" "I (upd p (\<lambda>i. i\<lparr>Addr6 := as\<rparr>) x) = I x" for x as
    by (rule I_fields; simp add: rs_part_def socks_part_def updateLinkLocalState_def)+
  then show ?thesis by (simp add: refreshInterfaceAddresses_def case_prod_beta)
qed

lemma I_findOrCreateInterface:
  assumes "I s"
  shows "I (snd (findOrCreateInterface name s))"
proof -
  let ?i = "setInterfaceDefaults (zeroInterface\<lparr>Name := name\<rparr>)"
  have "rs_part ?i = (None, 0, 0)" "socks_part ?i = (None, None, None)"
    by (simp_all add: rs_part_def socks_part_def setInterfaceDefaults_def zeroInterface_def)
  from I_new [OF assms this] have "I ((new_object ?i s)\<lparr>interfaces := interfaces s @ [(name, nextPtr s)]\<rparr>)"
    by (simp add: I_interfaces)
  with assms show ?thesis by (simp add: findOrCreateInterface_def new_object_def split: option.split)
qed

lemma I_parse_ifname: "I s \<Longrightarrow> p < nextPtr s \<Longrightarrow> I (snd (parse_ifname os p n s))"
proof -
  have "I (upd p (\<lambda>i. i\<lparr>Ifname := a, Ifindex := b, Running := c\<rparr>) x) = I x" for x a b c
    by (rule I_fields) (simp add: rs_part_def socks_part_def)
  then show "I s \<Longrightarrow> p < nextPtr s \<Longrightarrow> I (snd (parse_ifname os p n s))"
    by (simp add: parse_ifname_def Let_def I_disableServices split: sum.split)
qed

lemma I_load_iface:
  assumes "I s" "daemon_ok s"
  shows "I (load_iface os x s)"
proof -
  obtain name obj where x: "x = (name, obj)" by (cases x)
  obtain p t where f: "findOrCreateInterface name s = (p, t)" by (metis surj_pair)
  have t: "I t" "p < nextPtr t"
    using I_findOrCreateInterface [OF assms(1), of name] f map_of_SomeD [OF findOrCreateInterface_spec(2) [OF assms(2), of name]]
      daemonD(1) [OF findOrCreateInterface_spec(1) [OF assms(2), of name]] by (auto simp: registry_ok_def)
  have "I (upd p (parse_flags obj) y) = I y" for y by (rule I_fields) (simp add: rs_part_def socks_part_def parse_flags_def)
  moreover have "I (snd (parse_ifname os p n t))" for n using I_parse_ifname t by simp
  ultimately have "I (snd (parseInterfaceJSON os name obj s))"
    using t(1) by (auto simp: parseInterfaceJSON_def f case_prod_beta split: option.split)
  then show ?thesis by (simp add: x load_iface_def case_prod_beta)
qed

lemma I_loadConfigJSON:
  assumes "I s" "daemon_ok s"
  shows "I (loadConfigJSON os path s) \<and> daemon_ok (loadConfigJSON os path s)"
proof -
  have step: "I (load_iface os x y) \<and> daemon_ok (load_iface os x y)" if "I y \<and> daemon_ok y" for x y
    using that I_load_iface parseInterfaceJSON_spec(1) by (auto simp: load_iface_def case_prod_beta)
  have all: "I (fold (load_iface os) xs y) \<and> daemon_ok (fold (load_iface os) xs y)" if "I y" "daemon_ok y" for xs y
    by (rule fold_inv [where I = "\<lambda>y. I y \<and> daemon_ok y"]) (use that step in auto)
  show ?thesis
  proof (cases "config_read os (clk s) path")
    case None
    then obtain m where "loadConfigJSON os path s = Errorf m (tick s)" by (rule loadConfigJSON_unreadable)
    with assms show ?thesis by simp
  next
    case (Some js)
    then obtain l o' where e: "loadConfigJSON os path s =
        fold (load_iface os) (permute o' js) (s\<lparr>lg := l, clk := Suc (Suc (clk s))\<rparr>)"
        "cfg_LogLevelCmdline s \<longrightarrow> logLevel l = logLevel (lg s)"
      using loadConfigJSON_readable by blast
    have "I (s\<lparr>lg := l, clk := Suc (Suc (clk s))\<rparr>)" using e(2) assms(1) by (simp add: obs_clk I_level)
    then show ?thesis
      unfolding e(1) by (rule all) (use assms in \<open>simp_all add: daemon_mobs.obs_clk daemon_lg\<close>)
  qed
qed

end

lemma daemon_reload_defaults: "daemon_ok s \<Longrightarrow> daemon_ok (reload_defaults p s)"
  unfolding reload_defaults_upd
  by (rule daemon_upd; (rule sock_of_cong)?; simp add: defaulted_def setInterfaceDefaults_def cache_ok_def)

lemma daemon_disable_master: "daemon_ok s \<Longrightarrow> daemon_ok (disable_master d r n p s)"
  unfolding disable_master_upd
  by (rule daemon_upd; (rule sock_of_cong)?; simp add: disabled_by_def cache_ok_def ll_addrs_def)

lemma registered_bound: "daemon_ok s \<Longrightarrow> p \<in> registered s \<Longrightarrow> p < nextPtr s"
  using daemonD(1) [of s] by (auto simp: registry_ok_def registered_def)

lemma reload_iface_keeps:
  assumes "daemon_ok s" "p \<in> registered s"
  shows "daemon_ok (reload_iface os p s)" "registered s - {p} \<subseteq> registered (reload_iface os p s)"
  using assms reload_iface_registered [OF daemonD(1) [OF assms(1)] assms(2), of os]
  by (auto simp: reload_iface_def daemon_reloadServices daemon_closeInterface)

context handler_base
begin

lemma I_reload_iface: "I s \<Longrightarrow> daemon_ok s \<Longrightarrow> p \<in> registered s \<Longrightarrow> I (reload_iface os p s)"
  by (simp add: reload_iface_def I_reloadServices I_closeInterface registered_bound)

lemma I_reload_all:
  "I s \<Longrightarrow> daemon_ok s \<Longrightarrow> set cs \<subseteq> registered s \<Longrightarrow> distinct cs \<Longrightarrow>
   I (fold (reload_iface os) cs s) \<and> daemon_ok (fold (reload_iface os) cs s)"
proof (induction cs arbitrary: s)
  case (Cons c cs)
  have c: "c \<in> registered s" using Cons.prems(3) by simp
  have "set cs \<subseteq> registered (reload_iface os c s)"
    using reload_iface_keeps(2) [OF Cons.prems(2) c] Cons.prems(3, 4) by auto
  then show ?case
    using Cons.IH [of "reload_iface os c s"] I_reload_iface [OF Cons.prems(1, 2) c]
      reload_iface_keeps(1) [OF Cons.prems(2) c] Cons.prems(4) by simp
qed simp

lemma I_Reload:
  assumes "I s" "daemon_ok s"
  shows "I (Reload os s) \<and> daemon_ok (Reload os s)"
proof -
  let ?J = "\<lambda>y. I y \<and> daemon_ok y"
  have 1: "I (reload_defaults p x) = I x" "I (disable_master d r n p x) = I x" for p x d r n
    unfolding reload_defaults_upd disable_master_upd
    by (rule I_fields; simp add: rs_part_def socks_part_def defaulted_def setInterfaceDefaults_def disabled_by_def)+
  have 2: "?J (fold reload_defaults cs x)" "?J (fold (disable_master d r n) cs x)" if "?J x" for cs x d r n
    by (rule fold_inv [where I = ?J]; use that in \<open>simp add: 1 daemon_reload_defaults daemon_disable_master\<close>)+
  have 3: "?J (snd (range_interfaces os x))" if "?J x" for x using that by simp
  define u where "u = loadConfigJSON os (cfg_ConfigFile (fold reload_defaults (fst (range_interfaces os s)) (snd (range_interfaces os s))))
     (fold reload_defaults (fst (range_interfaces os s)) (snd (range_interfaces os s)))"
  have u: "?J u" unfolding u_def using I_loadConfigJSON 2(1) 3 assms by blast
  define u1 where "u1 = snd (range_interfaces os u)"
  define cs where "cs = fst (range_interfaces os u)"
  define v where "v = fold (disable_master (any_slave DHCPv6 cs u1) (any_slave RA cs u1) (any_slave NDP cs u1))
     (fst (range_interfaces os u1)) (snd (range_interfaces os u1))"
  have v: "?J v" unfolding v_def u1_def using 2(2) 3 u by blast
  have R: "Reload os s = fold (reload_iface os) (fst (range_interfaces os v)) (snd (range_interfaces os v))"
    by (simp add: Reload_def Let_def case_prod_beta u_def u1_def cs_def v_def copyIfaceList_def)
  have "distinct (map snd (interfaces v))" using v daemonD(1) [of v] by (simp add: registry_ok_def)
  then have "distinct (fst (range_interfaces os v))" by (metis mset_range_interfaces mset_eq_imp_distinct_iff)
  moreover have "set (fst (range_interfaces os v)) \<subseteq> registered (snd (range_interfaces os v))"
    by (simp add: registered_def)
  ultimately show ?thesis unfolding R using I_reload_all 3 [OF v] by blast
qed

lemma I_upd_fields [simp]:
  "I (upd p (\<lambda>i. i\<lparr>Running := b\<rparr>) s) = I s" "I (upd p (\<lambda>i. i\<lparr>Ifindex := n, Running := b\<rparr>) s) = I s"
  "I (upd p (\<lambda>i. i\<lparr>cachedLLValid := b\<rparr>) s) = I s"
  "I (upd p (\<lambda>i. i\<lparr>Ifindex := n, Running := b, Addr6 := as, cachedLLValid := c, HaveLinkLocal := h\<rparr>) s) = I s"
  by (rule I_fields; simp add: rs_part_def socks_part_def)+

lemma I_handleLinkEvent:
  assumes "I s" "daemon_ok s"
  shows "I (handleLinkEvent os u s)"
proof -
  obtain r t where g: "ifaceByIfname os (lu_Name u) s = (r, t)" by (metis surj_pair)
  have t: "I t" "daemon_ok t" "nextPtr t = nextPtr s"
    using assms g obs_ifaceBy(2) [of os "lu_Name u" s] daemon_mobs.obs_ifaceBy(2) [of os "lu_Name u" s]
      nextPtr_obs.obs_ifaceBy(2) [of os "lu_Name u" s] by simp_all
  show ?thesis
  proof (cases r)
    case (Some p)
    then have "p < nextPtr s"
      using ifaceByIfname_Some [of os "lu_Name u" s p] g registered_bound [OF assms(2)] by (simp add: registered_def)
    with t Some show ?thesis
      by (simp add: handleLinkEvent_def g Let_def I_disableServices I_reloadServices)
  qed (use g t in \<open>simp add: handleLinkEvent_def\<close>)
qed

lemma I_handleAddrEvent: "I s \<Longrightarrow> I (handleAddrEvent os u s)"
proof -
  assume s: "I s"
  obtain r t where g: "ifaceByIndex os (au_LinkIndex u) s = (r, t)" by (metis surj_pair)
  then have "I t" using s obs_ifaceBy(1) [of os "au_LinkIndex u" s] by simp
  with s show ?thesis by (auto simp: handleAddrEvent_def g Let_def split: option.split)
qed

end

sublocale handler_base \<subseteq> quiet_cache I
  by unfold_locales (rule I_fields, simp add: rs_part_def socks_part_def)

text \<open>Invariants that ignore the sockets and the trace: promises about the primitive operations are enough.\<close>

locale handler_inv = mirror_obs I for I :: "st \<Rightarrow> bool" +
  assumes I_chans: "I (s\<lparr>nextChan := n, closedChans := l, panicked := b\<rparr>) = I s"
    and I_readers: "I (s\<lparr>readers := rs\<rparr>) = I s"
    and P_interfaces: "I (s\<lparr>interfaces := is\<rparr>) = I s"
    and P_fields: "(\<And>i. rs_part (f i) = rs_part i) \<Longrightarrow> I (upd p f s) = I s"
    and I_reset: "I s \<Longrightarrow> I (upd p (\<lambda>i. i\<lparr>raSent := 0\<rparr>) s)"
    and I_bump: "I s \<Longrightarrow> p < nextPtr s \<Longrightarrow> raSent (heap s p) = 0 \<Longrightarrow> I (bump p s)"
    and P_stop: "I s \<Longrightarrow> I (stop_rsTimer p s)"
    and P_level: "(cfg_LogLevelCmdline s \<Longrightarrow> logLevel ll = logLevel (lg s)) \<Longrightarrow> I (s\<lparr>lg := ll\<rparr>) = I s"
    and P_new: "I s \<Longrightarrow> rs_part i = (None, 0, 0) \<Longrightarrow> I (new_object i s)"
begin

lemma I_close_chan [simp]: "I (close_chan c s) = I s"
  using I_chans [where s = s and n = "nextChan s" and l = "closedChans s @ [c]" and b = "panicked s"]
    I_chans [where s = s and n = "nextChan s" and l = "closedChans s" and b = True]
  by (simp add: close_chan_def)

lemma I_panicked [simp]: "I (s\<lparr>panicked := b\<rparr>) = I s"
  using I_chans [where s = s and n = "nextChan s" and l = "closedChans s" and b = b] by simp

lemma I_make_chan [simp]: "I (snd (make_chan s)) = I s"
  using I_chans [where s = s and n = "Suc (nextChan s)" and l = "closedChans s" and b = "panicked s"]
  by (simp add: make_chan_def)

lemma I_go [simp]: "I (go r s) = I s"
  by (simp add: go_def I_readers)

lemma I_svc [simp]:
  "I (upd p (\<lambda>i. i\<lparr>router := r\<rparr>) s) = I s" "I (upd p (\<lambda>i. i\<lparr>dhcp := d\<rparr>) s) = I s"
  "I (upd p (\<lambda>i. i\<lparr>ndp := n\<rparr>) s) = I s"
  "I (upd p (\<lambda>i. i\<lparr>cachedLL := a, cachedLLValid := v\<rparr>) s) = I s"
  by (rule P_fields; simp add: rs_part_def)+

lemma I_teardown [simp]:
  "I (router_teardown os p s) = I s" "I (dhcp_teardown os p s) = I s" "I (ndp_teardown os p s) = I s"
  by (simp_all add: router_teardown_def dhcp_teardown_def ndp_teardown_def split: option.split)

lemma I_dhcpv6Setup [simp]: "I (snd (dhcpv6Setup os p e s)) = I s"
  by (simp add: dhcpv6Setup_def Let_def case_prod_beta split: sum.split)

lemma I_ndpSetup [simp]: "I (snd (ndpSetup os p e s)) = I s"
  by (simp add: ndpSetup_def ndp_capture_def Let_def case_prod_beta split: sum.split)

lemma I_start: "I s \<Longrightarrow> I (upd p (\<lambda>i. i\<lparr>router := r, raSent := 0\<rparr>) s)"
  using I_reset [of "upd p (\<lambda>i. i\<lparr>router := r\<rparr>) s" p] by (simp add: upd_upd)

lemma I_routerSetup:
  assumes "I s" "p < nextPtr s"
  shows "I (snd (routerSetup os p e s))"
proof -
  have arm: "I (arm_rsTimer 100 p n (upd p (\<lambda>i. i\<lparr>rsTimerN := rsTimerN i + 1\<rparr>) x))"
    if "I x" "nextPtr x = nextPtr s" "raSent (heap x p) = 0" "n = rsTimerN (heap x p) + 1" for x n
    using I_bump [OF that(1), of p] that(2-4) assms(2) by (simp add: bump_def)
  show ?thesis
    using assms by (auto simp: routerSetup_def Let_def case_prod_beta P_stop I_start arm split: sum.split option.split)
qed

end

sublocale handler_inv \<subseteq> handler_base I os for os
proof unfold_locales
  show "I (upd p f s) = I s" if "\<And>i. rs_part (f i) = rs_part i \<and> socks_part (f i) = socks_part i" for f p s
    by (rule P_fields) (use that in simp)
qed (simp_all add: P_interfaces I_routerSetup P_stop P_level P_new)

section \<open>The timer invariant\<close>

definition timers_of :: "timer \<Rightarrow> st \<Rightarrow> nat" where
  "timers_of k s = length (filter (\<lambda>x. snd (snd x) = k) (timers s))"

text \<open>
  Timer ids are unique; a solicitation timer belongs to an object that exists and to a generation that
  is not in the future; the timer an object remembers, if still pending, is its own solicitation timer.
\<close>

definition timers_ok :: "st \<Rightarrow> bool" where
  "timers_ok s = (distinct (map fst (timers s)) \<and>
     (\<forall>x \<in> set (timers s). fst x < nextTimer s) \<and>
     (\<forall>x \<in> set (timers s). \<forall>p g. snd (snd x) = SolicitTimer p g \<longrightarrow>
        p < nextPtr s \<and> g \<le> rsTimerN (heap s p)) \<and>
     (\<forall>p t. rsTimer (heap s p) = Some t \<longrightarrow> t < nextTimer s \<and>
        (\<forall>x \<in> set (timers s). fst x = t \<longrightarrow> (\<exists>g. snd (snd x) = SolicitTimer p g))))"

text \<open>Firings that are due for the current generation: timers, and closures already posted.\<close>

definition pending :: "(ptr \<Rightarrow> int \<Rightarrow> nat) \<Rightarrow> st \<Rightarrow> ptr \<Rightarrow> nat" where
  "pending q s p = timers_of (SolicitTimer p (rsTimerN (heap s p))) s + q p (rsTimerN (heap s p))"

definition solicit_ok :: "(ptr \<Rightarrow> int \<Rightarrow> nat) \<Rightarrow> st \<Rightarrow> bool" where
  "solicit_ok q s = (\<forall>p. 0 \<le> raSent (heap s p) \<and> raSent (heap s p) \<le> maxRtrSolicitations \<and>
     pending q s p \<le> 1 \<and> (pending q s p = 1 \<longrightarrow> raSent (heap s p) < maxRtrSolicitations) \<and>
     (\<forall>g. 0 < q p g \<longrightarrow> p < nextPtr s \<and> g \<le> rsTimerN (heap s p)))"

definition timer_inv :: "(ptr \<Rightarrow> int \<Rightarrow> nat) \<Rightarrow> nat \<Rightarrow> nat \<Rightarrow> st \<Rightarrow> bool" where
  "timer_inv q n m s = (timers_ok s \<and> solicit_ok q s \<and> timers_of ReconcileTimer s = n \<and> timers_of SweepTick s = m)"

definition timer_view :: "st \<Rightarrow> (nat \<times> nat \<times> timer) list \<times> nat \<times> ptr \<times> (ptr \<Rightarrow> nat option \<times> int \<times> int)" where
  "timer_view s = (timers s, nextTimer s, nextPtr s, \<lambda>p. rs_part (heap s p))"

lemma timer_view_cong:
  assumes "timer_view s = timer_view t"
  shows "timer_inv q n m s = timer_inv q n m t"
proof -
  have "timers s = timers t" "nextTimer s = nextTimer t" "nextPtr s = nextPtr t"
    "\<And>p. rsTimer (heap s p) = rsTimer (heap t p)" "\<And>p. rsTimerN (heap s p) = rsTimerN (heap t p)"
    "\<And>p. raSent (heap s p) = raSent (heap t p)"
    using assms by (auto simp: timer_view_def rs_part_def socks_part_def fun_eq_iff)
  then show ?thesis by (simp add: timer_inv_def timers_ok_def solicit_ok_def pending_def timers_of_def)
qed

lemma timers_ofs: "timers_of k s = 0 \<longleftrightarrow> (\<forall>x \<in> set (timers s). snd (snd x) \<noteq> k)"
  by (auto simp: timers_of_def filter_empty_conv)

lemma timers_ok_arm:
  assumes "timers_ok s" "p < nextPtr s" "g \<le> rsTimerN (heap s p)"
  shows "timers_ok (arm_rsTimer ms p g s)"
proof -
  have lt: "fst x < nextTimer s" if "x \<in> set (timers s)" for x using assms(1) that by (auto simp: timers_ok_def)
  have nn: "nextTimer s \<noteq> fst x" if "x \<in> set (timers s)" for x using lt [OF that] by simp
  have r: "t < nextTimer s \<and> (\<forall>x \<in> set (timers s). fst x = t \<longrightarrow> (\<exists>g. snd (snd x) = SolicitTimer p g))"
    if "rsTimer (heap s p) = Some t" for p t using assms(1) that by (simp add: timers_ok_def)
  have own: "p' < nextPtr s \<and> g' \<le> rsTimerN (heap s p')"
    if "x \<in> set (timers s)" "snd (snd x) = SolicitTimer p' g'" for x p' g'
    using assms(1) that by (simp add: timers_ok_def)
  have d: "distinct (map fst (timers s))" using assms(1) by (simp add: timers_ok_def)
  have nr: "rsTimer (heap s x) \<noteq> Some (nextTimer s)" for x using r [of x "nextTimer s"] by auto
  have nt: "(nextTimer s, a, b) \<notin> set (timers s)" for a b using nn [of "(nextTimer s, a, b)"] by auto
  show ?thesis
    unfolding timers_ok_def
    using d lt nn r own assms(2, 3) by (auto simp: less_Suc_eq image_iff nr nt)
qed

lemma solicit_ok_arm:
  assumes "solicit_ok q s" "pending q s p = 0" "raSent (heap s p) < maxRtrSolicitations" "g = rsTimerN (heap s p)"
  shows "solicit_ok q (arm_rsTimer ms p g s)"
proof -
  have e: "pending q (arm_rsTimer ms p g s) p' = (if p' = p then 1 else pending q s p')" for p'
    using assms(2, 4) by (auto simp: pending_def timers_of_def)
  have o: "0 \<le> raSent (heap s x) \<and> raSent (heap s x) \<le> maxRtrSolicitations \<and> pending q s x \<le> 1 \<and>
      (pending q s x = 1 \<longrightarrow> raSent (heap s x) < maxRtrSolicitations) \<and>
      (\<forall>g. 0 < q x g \<longrightarrow> x < nextPtr s \<and> g \<le> rsTimerN (heap s x))" for x
    using assms(1) by (simp add: solicit_ok_def)
  show ?thesis
    unfolding solicit_ok_def
  proof
    fix x
    show "0 \<le> raSent (heap (arm_rsTimer ms p g s) x) \<and> raSent (heap (arm_rsTimer ms p g s) x) \<le> maxRtrSolicitations \<and>
      pending q (arm_rsTimer ms p g s) x \<le> 1 \<and>
      (pending q (arm_rsTimer ms p g s) x = 1 \<longrightarrow> raSent (heap (arm_rsTimer ms p g s) x) < maxRtrSolicitations) \<and>
      (\<forall>g'. 0 < q x g' \<longrightarrow> x < nextPtr (arm_rsTimer ms p g s) \<and> g' \<le> rsTimerN (heap (arm_rsTimer ms p g s) x))"
      using o [of x] assms(3) unfolding e by (cases "x = p") simp_all
  qed
qed

lemma timer_inv_arm:
  assumes "timer_inv q n m s" "p < nextPtr s" "pending q s p = 0" "raSent (heap s p) < maxRtrSolicitations"
    and "g = rsTimerN (heap s p)"
  shows "timer_inv q n m (arm_rsTimer ms p g s)"
proof -
  have "timers_of k (arm_rsTimer ms p g s) = timers_of k s" if "\<forall>a b. k \<noteq> SolicitTimer a b" for k
    using that by (auto simp: timers_of_def)
  with assms show ?thesis
    by (simp add: timer_inv_def timers_ok_arm solicit_ok_arm)
qed

lemma timer_inv_reset: "timer_inv q n m s \<Longrightarrow> timer_inv q n m (upd p (\<lambda>i. i\<lparr>raSent := 0\<rparr>) s)"
  by (simp add: timer_inv_def timers_ok_def solicit_ok_def pending_def timers_of_def)

lemma queued_bound: "timer_inv q n m s \<Longrightarrow> 0 < q p g \<Longrightarrow> p < nextPtr s \<and> g \<le> rsTimerN (heap s p)"
  by (simp add: timer_inv_def solicit_ok_def)

lemma pending_bump:
  fixes p :: ptr
  assumes "timer_inv q n m s"
  defines "t \<equiv> upd p (\<lambda>i. i\<lparr>rsTimerN := rsTimerN i + 1\<rparr>) s"
  shows "pending q t p = 0" "x \<noteq> p \<Longrightarrow> pending q t x = pending q s x"
proof -
  have "timers_of (SolicitTimer p (rsTimerN (heap s p) + 1)) s = 0"
    using assms(1) by (auto simp: timer_inv_def timers_ok_def timers_ofs)
  moreover have "q p (rsTimerN (heap s p) + 1) = 0"
    using queued_bound [OF assms(1), of p "rsTimerN (heap s p) + 1"] by (cases "q p (rsTimerN (heap s p) + 1)") auto
  ultimately show "pending q t p = 0" by (simp add: t_def pending_def timers_of_def)
  show "x \<noteq> p \<Longrightarrow> pending q t x = pending q s x" by (simp add: t_def pending_def timers_of_def)
qed

lemma timer_inv_bump:
  assumes "timer_inv q n m s" "p < nextPtr s" "raSent (heap s p) = 0"
  shows "timer_inv q n m (bump p s)"
  unfolding bump_def
proof (rule timer_inv_arm)
  let ?t = "upd p (\<lambda>i. i\<lparr>rsTimerN := rsTimerN i + 1\<rparr>) s"
  note P = pending_bump [OF assms(1)]
  have "timers_ok ?t" using assms(1) by (fastforce simp: timer_inv_def timers_ok_def)
  moreover have "solicit_ok q ?t"
    unfolding solicit_ok_def
  proof
    fix x
    have "0 \<le> raSent (heap s x) \<and> raSent (heap s x) \<le> maxRtrSolicitations \<and> pending q s x \<le> 1 \<and>
      (pending q s x = 1 \<longrightarrow> raSent (heap s x) < maxRtrSolicitations) \<and>
      (\<forall>g. 0 < q x g \<longrightarrow> x < nextPtr s \<and> g \<le> rsTimerN (heap s x))"
      using assms(1) by (simp add: timer_inv_def solicit_ok_def)
    then show "0 \<le> raSent (heap ?t x) \<and> raSent (heap ?t x) \<le> maxRtrSolicitations \<and> pending q ?t x \<le> 1 \<and>
      (pending q ?t x = 1 \<longrightarrow> raSent (heap ?t x) < maxRtrSolicitations) \<and>
      (\<forall>g. 0 < q x g \<longrightarrow> x < nextPtr ?t \<and> g \<le> rsTimerN (heap ?t x))"
      using P(1) [of p] P(2) [of x p] by (cases "x = p") (auto simp: add_increasing2)
  qed
  ultimately show "timer_inv q n m ?t" using assms(1) by (simp add: timer_inv_def timers_of_def)
qed (use assms pending_bump(1) [OF assms(1)] in simp_all)

lemma timer_inv_stop:
  assumes "timer_inv q n m s"
  shows "timer_inv q n m (stop_rsTimer p s)"
proof (cases "rsTimer (heap s p)")
  case None
  with assms show ?thesis by (simp add: stop_rsTimer_def)
next
  case (Some t)
  let ?t = "stop_rsTimer p s"
  have ts: "timers ?t = filter (\<lambda>x. fst x \<noteq> t) (timers s)" "nextTimer ?t = nextTimer s" "nextPtr ?t = nextPtr s"
    and h: "\<And>x. rsTimerN (heap ?t x) = rsTimerN (heap s x)" "\<And>x. raSent (heap ?t x) = raSent (heap s x)"
      "\<And>x. rsTimer (heap ?t x) = (if x = p then None else rsTimer (heap s x))"
    using Some by (simp_all add: stop_rsTimer_def timer_Stop_def)
  have own: "\<exists>g. snd (snd x) = SolicitTimer p g" if "x \<in> set (timers s)" "fst x = t" for x
    using assms Some that by (auto simp: timer_inv_def timers_ok_def)
  have le: "timers_of k ?t \<le> timers_of k s" for k
  proof -
    have "filter (\<lambda>x. snd (snd x) = k) (timers ?t) = filter (\<lambda>x. fst x \<noteq> t) (filter (\<lambda>x. snd (snd x) = k) (timers s))"
      by (simp add: ts conj_commute)
    then show ?thesis by (simp only: timers_of_def length_filter_le)
  qed
  have eq: "timers_of k ?t = timers_of k s" if "\<forall>a b. k \<noteq> SolicitTimer a b" for k
  proof -
    have "filter (\<lambda>x. snd (snd x) = k) (filter (\<lambda>x. fst x \<noteq> t) (timers s)) = filter (\<lambda>x. snd (snd x) = k) (timers s)"
      unfolding filter_filter by (rule filter_cong) (use own that in fastforce)+
    then show ?thesis by (simp add: timers_of_def ts)
  qed
  have "timers_ok ?t"
    using assms by (fastforce simp: timer_inv_def timers_ok_def ts h distinct_map_filter)
  moreover have "solicit_ok q ?t"
    unfolding solicit_ok_def
  proof
    fix x
    have "pending q ?t x \<le> pending q s x" using le by (simp add: pending_def h)
    moreover have "0 \<le> raSent (heap s x) \<and> raSent (heap s x) \<le> maxRtrSolicitations \<and> pending q s x \<le> 1 \<and>
      (pending q s x = 1 \<longrightarrow> raSent (heap s x) < maxRtrSolicitations) \<and>
      (\<forall>g. 0 < q x g \<longrightarrow> x < nextPtr s \<and> g \<le> rsTimerN (heap s x))"
      using assms by (simp add: timer_inv_def solicit_ok_def)
    ultimately show "0 \<le> raSent (heap ?t x) \<and> raSent (heap ?t x) \<le> maxRtrSolicitations \<and> pending q ?t x \<le> 1 \<and>
      (pending q ?t x = 1 \<longrightarrow> raSent (heap ?t x) < maxRtrSolicitations) \<and>
      (\<forall>g. 0 < q x g \<longrightarrow> x < nextPtr ?t \<and> g \<le> rsTimerN (heap ?t x))"
      by (auto simp: h ts)
  qed
  ultimately show ?thesis using assms eq by (simp add: timer_inv_def)
qed

lemma timer_inv_new:
  assumes "timer_inv q n m s" "rs_part i = (None, 0, 0)"
  shows "timer_inv q n m (new_object i s)"
proof -
  let ?t = "new_object i s"
  have i: "rsTimer i = None" "rsTimerN i = 0" "raSent i = 0" using assms(2) by (simp_all add: rs_part_def socks_part_def)
  have t: "timers ?t = timers s" "nextTimer ?t = nextTimer s" "nextPtr ?t = Suc (nextPtr s)"
    "heap ?t = (heap s)(nextPtr s := i)" by (simp_all add: new_object_def)
  have old: "p < nextPtr s \<and> g \<le> rsTimerN (heap s p)"
    if "x \<in> set (timers s)" "snd (snd x) = SolicitTimer p g" for x p g
    using assms(1) that by (simp add: timer_inv_def timers_ok_def)
  have no: "snd (snd x) \<noteq> SolicitTimer (nextPtr s) g" if "x \<in> set (timers s)" for x g
    using old [OF that, of "nextPtr s" g] by auto
  have qz: "q (nextPtr s) g = 0" for g
    using queued_bound [OF assms(1), of "nextPtr s" g] by (cases "q (nextPtr s) g") auto
  have "timers_of (SolicitTimer (nextPtr s) g) s = 0" for g using old by (fastforce simp: timers_ofs)
  then have p: "pending q ?t x = (if x = nextPtr s then 0 else pending q s x)" for x
    by (simp add: pending_def t i qz timers_of_def)
  have "timers_ok ?t"
    using assms(1) no unfolding timer_inv_def timers_ok_def t
    by (auto simp: i less_SucI)
  moreover have "solicit_ok q ?t"
    using assms(1) qz unfolding solicit_ok_def timer_inv_def p t
    by (auto simp: i less_SucI)
  ultimately show ?thesis using assms(1) by (simp add: timer_inv_def timers_of_def t)
qed

interpretation timer_hinv: handler_inv "timer_inv q n m" for q n m
proof unfold_locales
  show "timer_inv q n m (upd p f s) = timer_inv q n m s" if "\<And>i. rs_part (f i) = rs_part i" for p f s
    by (rule timer_view_cong) (use that in \<open>auto simp: timer_view_def\<close>)
qed (rule timer_view_cong timer_inv_reset timer_inv_bump timer_inv_stop timer_inv_new; simp add: timer_view_def)+

section \<open>Timers that fire\<close>

definition fire :: "nat \<Rightarrow> st \<Rightarrow> st" where
  "fire t s = timer_Stop t s"

definition dequeue :: "ptr \<Rightarrow> int \<Rightarrow> (ptr \<Rightarrow> int \<Rightarrow> nat) \<Rightarrow> ptr \<Rightarrow> int \<Rightarrow> nat" where
  "dequeue p g q = q(p := (q p)(g := q p g - 1))"

definition enqueue :: "ptr \<Rightarrow> int \<Rightarrow> (ptr \<Rightarrow> int \<Rightarrow> nat) \<Rightarrow> ptr \<Rightarrow> int \<Rightarrow> nat" where
  "enqueue p g q = q(p := (q p)(g := q p g + 1))"

lemma timer_inv_dequeue:
  assumes "timer_inv q n m s" "0 < q p g"
  shows "timer_inv (dequeue p g q) n m s"
    "g = rsTimerN (heap s p) \<Longrightarrow> pending (dequeue p g q) s p = 0 \<and> raSent (heap s p) < maxRtrSolicitations"
proof -
  have le: "pending (dequeue p g q) s x \<le> pending q s x" "dequeue p g q x y \<le> q x y" for x y
    by (simp_all add: pending_def dequeue_def)
  have pos: "0 < q x y" if "0 < dequeue p g q x y" for x y using that le(2) [of x y] by simp
  have "solicit_ok (dequeue p g q) s"
    unfolding solicit_ok_def
  proof
    fix x
    have "0 \<le> raSent (heap s x) \<and> raSent (heap s x) \<le> maxRtrSolicitations \<and> pending q s x \<le> 1 \<and>
      (pending q s x = 1 \<longrightarrow> raSent (heap s x) < maxRtrSolicitations) \<and>
      (\<forall>g. 0 < q x g \<longrightarrow> x < nextPtr s \<and> g \<le> rsTimerN (heap s x))"
      using assms(1) by (simp add: timer_inv_def solicit_ok_def)
    then show "0 \<le> raSent (heap s x) \<and> raSent (heap s x) \<le> maxRtrSolicitations \<and> pending (dequeue p g q) s x \<le> 1 \<and>
      (pending (dequeue p g q) s x = 1 \<longrightarrow> raSent (heap s x) < maxRtrSolicitations) \<and>
      (\<forall>y. 0 < dequeue p g q x y \<longrightarrow> x < nextPtr s \<and> y \<le> rsTimerN (heap s x))"
      using le(1) [of x] pos [of x] by auto
  qed
  then show "timer_inv (dequeue p g q) n m s" using assms(1) by (simp add: timer_inv_def)
  have o: "pending q s p \<le> 1" "pending q s p = 1 \<Longrightarrow> raSent (heap s p) < maxRtrSolicitations"
    using assms(1) by (simp_all add: timer_inv_def solicit_ok_def)
  show "pending (dequeue p g q) s p = 0 \<and> raSent (heap s p) < maxRtrSolicitations" if "g = rsTimerN (heap s p)"
    using o that assms(2) by (auto simp: pending_def dequeue_def)
qed

lemma timer_inv_sent:
  assumes "timer_inv q n m s" "pending q s p = 0" "raSent (heap s p) < maxRtrSolicitations"
  shows "timer_inv q n m (upd p (\<lambda>i. i\<lparr>raSent := raSent i + 1\<rparr>) s)"
proof -
  let ?t = "upd p (\<lambda>i. i\<lparr>raSent := raSent i + 1\<rparr>) s"
  have "pending q ?t x = pending q s x" for x by (simp add: pending_def timers_of_def)
  moreover have "timers_ok ?t" using assms(1) by (simp add: timer_inv_def timers_ok_def)
  ultimately show ?thesis
    using assms by (simp add: timer_inv_def solicit_ok_def timers_of_def)
qed

text \<open>
  Handling a fired solicitation timer keeps the budget: the closure that was pending is consumed, at
  most one new timer is armed for the generation, and never more than three solicitations are counted.
\<close>

lemma solicitTimerFire_inv:
  assumes "timer_inv q n m s" "0 < q p gen"
  shows "timer_inv (dequeue p gen q) n m (solicitTimerFire os p gen s)"
proof (cases "rsTimerN (heap s p) \<noteq> gen \<or> router (heap s p) = None \<or> \<not> Master (heap s p) \<or> RA (heap s p) \<noteq> ModeRelay")
  case True
  then have "solicitTimerFire os p gen s = s" by (simp add: solicitTimerFire_def)
  then show ?thesis using timer_inv_dequeue(1) [where g = gen, OF assms] by simp
next
  case False
  let ?q = "dequeue p gen q"
  have I: "timer_inv ?q n m s" using timer_inv_dequeue(1) [where g = gen, OF assms] .
  have P: "pending ?q s p = 0" "raSent (heap s p) < maxRtrSolicitations" "p < nextPtr s"
    using timer_inv_dequeue(2) [where g = gen, OF assms] False queued_bound [OF assms] by simp_all
  define Same where "Same x \<longleftrightarrow> timer_inv ?q n m x \<and> pending ?q x p = 0 \<and> raSent (heap x p) = raSent (heap s p)
      \<and> nextPtr x = nextPtr s \<and> rsTimerN (heap x p) = gen" for x
  have arm: "timer_inv ?q n m (arm_rsTimer ms p gen x)" if "Same x" for x ms
    by (rule timer_inv_arm) (use that P in \<open>simp_all add: Same_def\<close>)
  have S: "Same s" using I P False by (simp add: Same_def)
  have C: "core (heap (snd (getLinkLocalAddr p s)) p) = core (heap s p)" by simp
  have pc: "pending ?q x p = pending ?q y p" if "timers x = timers y" "rsTimerN (heap x p) = rsTimerN (heap y p)" for x y
    using that by (simp add: pending_def timers_of_def)
  have L: "Same (snd (getLinkLocalAddr p s))"
    unfolding Same_def
  proof (intro conjI)
    show "timer_inv ?q n m (snd (getLinkLocalAddr p s))" using I by simp
    show "pending ?q (snd (getLinkLocalAddr p s)) p = 0" using pc [OF _ coreD(19) [OF C]] P(1) by simp
  qed (use coreD(17) [OF C] coreD(19) [OF C] False in simp_all)
  show ?thesis
  proof (cases "fst (getLinkLocalAddr p s)")
    case None
    then show ?thesis using False arm [OF L] by (auto simp: solicitTimerFire_def case_prod_beta)
  next
    case (Some a)
    let ?r = "sendRouterSolicitation os p (snd (getLinkLocalAddr p s))"
    have "pending ?q (snd ?r) p = pending ?q (snd (getLinkLocalAddr p s)) p" by (rule pc) simp_all
    then have R: "Same (snd ?r)" using L by (simp add: Same_def)
    let ?u = "upd p (\<lambda>i. i\<lparr>raSent := raSent i + 1\<rparr>) (snd ?r)"
    have U: "timer_inv ?q n m ?u" using timer_inv_sent [of ?q n m "snd ?r" p] R P by (simp add: Same_def)
    have A: "timer_inv ?q n m (arm_rsTimer ms p gen ?u)" if "raSent (heap ?u p) < maxRtrSolicitations" for ms
    proof (rule timer_inv_arm [OF U])
      have "pending ?q ?u p = pending ?q (snd ?r) p" by (rule pc) simp_all
      then show "pending ?q ?u p = 0" using R by (simp add: Same_def)
    qed (use that R P in \<open>simp_all add: Same_def\<close>)
    show ?thesis
      using False Some arm [OF R] U A
      by (cases "fst ?r") (auto simp: solicitTimerFire_def case_prod_beta Let_def)
  qed
qed

lemma filter_remove_key:
  "distinct (map fst xs) \<Longrightarrow> x \<in> set xs \<Longrightarrow>
   length (filter P xs) = length (filter P (filter (\<lambda>y. fst y \<noteq> fst x) xs)) + of_bool (P x)"
proof (induction xs)
  case (Cons y ys)
  show ?case
  proof (cases "y = x")
    case True
    then have "filter (\<lambda>y. fst y \<noteq> fst x) ys = ys"
      using Cons.prems(1) by (intro filter_True) (auto simp: image_iff)
    with True show ?thesis by (simp del: filter_filter)
  next
    case False
    then have "x \<in> set ys" using Cons.prems(2) by simp
    then have "fst y \<noteq> fst x" using Cons.prems(1) by (metis distinct.simps(2) image_eqI list.set_map list.simps(9))
    with Cons \<open>x \<in> set ys\<close> show ?thesis by (simp del: filter_filter)
  qed
qed simp

lemma fire_view:
  "timers (fire t s) = filter (\<lambda>x. fst x \<noteq> t) (timers s)" "nextTimer (fire t s) = nextTimer s"
  "heap (fire t s) = heap s" "nextPtr (fire t s) = nextPtr s"
  by (simp_all add: fire_def timer_Stop_def)

lemma fire_timers_of:
  assumes "timers_ok s" "(t, ms, k) \<in> set (timers s)"
  shows "timers_of k' s = timers_of k' (fire t s) + of_bool (k = k')"
  using filter_remove_key [of "timers s" "(t, ms, k)" "\<lambda>x. snd (snd x) = k'"] assms
  by (simp add: timers_of_def fire_view timers_ok_def)

lemma fire_timers_ok: "timers_ok s \<Longrightarrow> timers_ok (fire t s)"
  by (fastforce simp: timers_ok_def fire_view distinct_map_filter)

text \<open>A solicitation timer that fires moves from the timers to the queue.\<close>

lemma fire_solicit:
  assumes "timer_inv q n m s" "(t, ms, SolicitTimer p g) \<in> set (timers s)"
  shows "timer_inv (enqueue p g q) n m (fire t s)"
proof -
  have ok: "timers_ok s" using assms(1) by (simp add: timer_inv_def)
  note c = fire_timers_of [OF ok assms(2)]
  have e: "pending (enqueue p g q) (fire t s) x = pending q s x" for x
    using c by (simp add: pending_def enqueue_def fire_view)
  have b: "p < nextPtr s \<and> g \<le> rsTimerN (heap s p)" using ok assms(2) by (force simp: timers_ok_def)
  have "solicit_ok (enqueue p g q) (fire t s)"
    unfolding solicit_ok_def e
    using assms(1) b by (auto simp: timer_inv_def solicit_ok_def fire_view enqueue_def)
  then show ?thesis
    using assms(1) c fire_timers_ok [OF ok] by (simp add: timer_inv_def)
qed

lemma fire_other:
  assumes "timer_inv q n m s" "(t, ms, k) \<in> set (timers s)" "k = ReconcileTimer \<or> k = SweepTick"
  shows "timer_inv q (n - of_bool (k = ReconcileTimer)) (m - of_bool (k = SweepTick)) (fire t s)"
    "k = ReconcileTimer \<Longrightarrow> 0 < n" "k = SweepTick \<Longrightarrow> 0 < m"
proof -
  have ok: "timers_ok s" using assms(1) by (simp add: timer_inv_def)
  note c = fire_timers_of [OF ok assms(2)]
  have e: "pending q (fire t s) x = pending q s x" for x
    using c [of "SolicitTimer x (rsTimerN (heap s x))"] assms(3) by (auto simp: pending_def fire_view)
  have "solicit_ok q (fire t s)"
    unfolding solicit_ok_def e using assms(1) by (simp add: timer_inv_def solicit_ok_def fire_view)
  then show "timer_inv q (n - of_bool (k = ReconcileTimer)) (m - of_bool (k = SweepTick)) (fire t s)"
    using assms(1) c [of ReconcileTimer] c [of SweepTick] fire_timers_ok [OF ok] by (auto simp: timer_inv_def)
  show "k = ReconcileTimer \<Longrightarrow> 0 < n" "k = SweepTick \<Longrightarrow> 0 < m"
    using assms(1) c [of ReconcileTimer] c [of SweepTick] by (auto simp: timer_inv_def)
qed

lemma AfterFunc_inv:
  assumes "timer_inv q n m s" "k = ReconcileTimer \<or> k = SweepTick"
  shows "timer_inv q (n + of_bool (k = ReconcileTimer)) (m + of_bool (k = SweepTick)) (snd (AfterFunc ms k s))"
proof -
  let ?t = "snd (AfterFunc ms k s)"
  have t: "timers ?t = timers s @ [(nextTimer s, ms, k)]" "nextTimer ?t = Suc (nextTimer s)" "heap ?t = heap s"
    "nextPtr ?t = nextPtr s" by (simp_all add: AfterFunc_def)
  have ok: "timers_ok s" using assms(1) by (simp add: timer_inv_def)
  have c: "timers_of k' ?t = timers_of k' s + of_bool (k = k')" for k' by (simp add: timers_of_def t)
  have e: "pending q ?t x = pending q s x" for x using assms(2) by (auto simp: pending_def c t)
  have "solicit_ok q ?t"
    unfolding solicit_ok_def e using assms(1) by (simp add: timer_inv_def solicit_ok_def t)
  moreover have "timers_ok ?t"
  proof -
    have "fst x \<noteq> nextTimer s" if "x \<in> set (timers s)" for x using ok that by (auto simp: timers_ok_def)
    then have "distinct (map fst (timers ?t))" using ok by (auto simp: timers_ok_def t)
    then show ?thesis
      using ok assms(2) unfolding timers_ok_def t by (auto simp: less_Suc_eq)
  qed
  ultimately show ?thesis using assms(1) by (simp add: timer_inv_def c)
qed

lemma timer_inv_flag [simp]: "timer_inv q n m (s\<lparr>reconcileScheduled := b\<rparr>) = timer_inv q n m s"
  by (rule timer_view_cong) (simp add: timer_view_def)

lemma scheduleReconcile_inv:
  assumes "timer_inv q n m s"
  shows "timer_inv q (n + of_bool (\<not> reconcileScheduled s)) m (scheduleReconcile s)"
  using AfterFunc_inv [of q n m "s\<lparr>reconcileScheduled := True\<rparr>" ReconcileTimer] assms
  by (simp add: scheduleReconcile_def)

section \<open>When the count of solicitations is reset\<close>

text \<open>
  The count of an object that exists is \<open>k\<close>, or it was set to 0 by a start of its Router Discovery service: a
  reader runs for it on a channel that did not exist before (\<open>c\<close> is the number of channels at the beginning).
\<close>

definition restarted :: "ptr \<Rightarrow> nat \<Rightarrow> st \<Rightarrow> bool" where
  "restarted p c s = (\<exists>rs. RouterReader rs \<in> set (readers s) \<and> rs_iface rs = p \<and> c \<le> rs_done rs)"

definition count_inv :: "ptr \<Rightarrow> int \<Rightarrow> nat \<Rightarrow> st \<Rightarrow> bool" where
  "count_inv p k c s = (p < nextPtr s \<and> c \<le> nextChan s \<and>
     (raSent (heap s p) = k \<or> (raSent (heap s p) = 0 \<and> restarted p c s)))"

interpretation count_mobs: mirror_obs "count_inv p k c" for p k c
  by unfold_locales (simp_all add: count_inv_def restarted_def mirrored_add_def mirrored_del_def)

lemma count_inv_prims [simp]:
  "count_inv p k c (close_chan ch s) = count_inv p k c s"
  "count_inv p k c (s\<lparr>panicked := b\<rparr>) = count_inv p k c s"
  "count_inv p k c (s\<lparr>interfaces := is\<rparr>) = count_inv p k c s"
  "count_inv p k c (timer_Stop t s) = count_inv p k c s"
  "count_inv p k c (snd (AfterFunc ms tm s)) = count_inv p k c s"
  "count_inv p k c (s\<lparr>lg := l\<rparr>) = count_inv p k c s"
  by (simp_all add: count_inv_def restarted_def close_chan_def timer_Stop_def AfterFunc_def)

lemma count_inv_upd: "(\<And>i. raSent (f i) = raSent i) \<Longrightarrow> count_inv p k c (upd q f s) = count_inv p k c s"
  by (simp add: count_inv_def restarted_def)

lemma count_inv_fields [simp]:
  "count_inv p k c (upd q (\<lambda>i. i\<lparr>router := r\<rparr>) s) = count_inv p k c s"
  "count_inv p k c (upd q (\<lambda>i. i\<lparr>dhcp := d\<rparr>) s) = count_inv p k c s"
  "count_inv p k c (upd q (\<lambda>i. i\<lparr>ndp := n\<rparr>) s) = count_inv p k c s"
  "count_inv p k c (upd q (\<lambda>i. i\<lparr>rsTimer := t\<rparr>) s) = count_inv p k c s"
  "count_inv p k c (upd q (\<lambda>i. i\<lparr>rsTimerN := rsTimerN i + 1\<rparr>) s) = count_inv p k c s"
  "count_inv p k c (arm_rsTimer ms q g s) = count_inv p k c s"
  by (simp_all add: count_inv_upd arm_rsTimer_def case_prod_beta)

lemma count_inv_go: "count_inv p k c s \<Longrightarrow> count_inv p k c (go r s)"
  by (auto simp: count_inv_def restarted_def go_def)

lemma count_inv_make_chan: "count_inv p k c s \<Longrightarrow> count_inv p k c (snd (make_chan s))"
  by (simp add: count_inv_def restarted_def make_chan_def)

lemma count_inv_start:
  assumes "count_inv p k c s"
  shows "count_inv p k c (go (RouterReader \<lparr>rs_fd = fd, rs_iface = q, rs_done = fst (make_chan s)\<rparr>)
    (upd q (\<lambda>i. i\<lparr>router := r, raSent := 0\<rparr>) (snd (make_chan s))))"
  using assms by (auto simp: count_inv_def restarted_def go_def make_chan_def)

lemma count_inv_teardown [simp]:
  "count_inv p k c (router_teardown os q s) = count_inv p k c s" "count_inv p k c (dhcp_teardown os q s) = count_inv p k c s"
  "count_inv p k c (ndp_teardown os q s) = count_inv p k c s" "count_inv p k c (stop_rsTimer q s) = count_inv p k c s"
  by (simp_all add: router_teardown_def dhcp_teardown_def ndp_teardown_def stop_rsTimer_def split: option.split)

interpretation count_hbase: handler_base "count_inv p k c" os for p k c os
proof unfold_locales
  show "count_inv p k c (upd q f s) = count_inv p k c s"
    if "\<And>i. rs_part (f i) = rs_part i \<and> socks_part (f i) = socks_part i" for q f s
    by (rule count_inv_upd) (use that in \<open>simp add: rs_part_def\<close>)
  show "count_inv p k c (snd (routerSetup os q e s))" if "count_inv p k c s" for q e s
    using that
    by (auto simp: routerSetup_def Let_def case_prod_beta count_inv_start split: sum.split option.split)
  show "count_inv p k c (snd (dhcpv6Setup os q e s))" if "count_inv p k c s" for q e s
    using that
    by (auto simp: dhcpv6Setup_def Let_def case_prod_beta split: sum.split intro!: count_inv_go count_inv_make_chan)
  show "count_inv p k c (snd (ndpSetup os q e s))" if "count_inv p k c s" for q e s
    using that
    by (auto simp: ndpSetup_def ndp_capture_def Let_def case_prod_beta split: sum.split
        intro!: count_inv_go count_inv_make_chan)
  show "count_inv p k c (new_object i s)" if "count_inv p k c s" for i s
    using that by (simp add: count_inv_def restarted_def new_object_def)
qed simp_all

end
