(* ===== verification/Descriptors.thy ===== *)
theory Descriptors
  imports Timing
begin

text \<open>
  The file descriptors of the daemon. The trace says which descriptors are open; the objects say which ones
  are held. The two agree: every setup function hands the descriptors it opens over to the object it serves
  or closes them on its error path, and every teardown closes what the object held.
\<close>

section \<open>Descriptors held\<close>

definition fds_of :: "Interface \<Rightarrow> int multiset" where
  "fds_of i =
     (case router i of None \<Rightarrow> {#} | Some r \<Rightarrow> {#rs_fd r#}) +
     (case dhcp i of None \<Rightarrow> {#} | Some d \<Rightarrow> {#ds_fd d#}) +
     (case ndp i of None \<Rightarrow> {#} | Some n \<Rightarrow> {#ns_fd n, ns_pingFd n#})"

definition held :: "st \<Rightarrow> int multiset" where
  "held s = (\<Sum>p<nextPtr s. fds_of (heap s p))"

text \<open>\<open>L\<close> are the descriptors a setup function has opened and not yet handed over.\<close>

definition fd_with :: "int multiset \<Rightarrow> st \<Rightarrow> bool" where
  "fd_with L s = (open_fds (trace s) = held s + L \<and> (\<forall>p. \<forall>x \<in># fds_of (heap s p). 0 \<le> x))"

text \<open>Linux never returns a negative descriptor for a socket that was opened.\<close>

definition os_fds :: "os \<Rightarrow> bool" where
  "os_fds os = (\<forall>n k fd. os_socket os n k = Inr fd \<longrightarrow> 0 \<le> fd)"

lemma fds_of_cong: "socks_part i = socks_part j \<Longrightarrow> fds_of i = fds_of j"
  by (simp add: socks_part_def fds_of_def)

lemma held_cong: "nextPtr t = nextPtr s \<Longrightarrow> (\<And>p. fds_of (heap t p) = fds_of (heap s p)) \<Longrightarrow> held t = held s"
  by (simp add: held_def)

lemma fd_with_cong:
  assumes "open_fds (trace t) = open_fds (trace s)" "nextPtr t = nextPtr s" "\<And>p. fds_of (heap t p) = fds_of (heap s p)"
  shows "fd_with L t = fd_with L s"
  using held_cong [OF assms(2, 3)] assms(1, 3) by (simp add: fd_with_def)

lemma held_upd:
  assumes "p < nextPtr s"
  shows "held (upd p f s) + fds_of (heap s p) = held s + fds_of (f (heap s p))"
proof -
  have p: "p \<in> {..<nextPtr s}" "finite {..<nextPtr s}" using assms by simp_all
  have "(\<Sum>q\<in>{..<nextPtr s} - {p}. fds_of (heap (upd p f s) q)) = (\<Sum>q\<in>{..<nextPtr s} - {p}. fds_of (heap s q))"
    by (rule sum.cong) simp_all
  then show ?thesis
    using sum.remove [OF p(2, 1), of "\<lambda>q. fds_of (heap (upd p f s) q)"] sum.remove [OF p(2, 1), of "\<lambda>q. fds_of (heap s q)"]
    by (simp add: held_def ac_simps)
qed

lemma quiet_fd_step: "(\<And>fd. c \<noteq> CloseFd fd) \<Longrightarrow> fd_step (Did c r) M = M"
  by (cases c) auto

interpretation fd_quiet: quiet_mirror "fd_with L" for L
  by unfold_locales (rule fd_with_cong; simp add: quiet_fd_step)+

interpretation fd_cache: quiet_cache "fd_with L" for L
  by unfold_locales (rule fd_with_cong; auto intro: fds_of_cong simp: socks_part_def)

section \<open>Opening, closing, handing over\<close>

lemma fd_socket:
  assumes "fd_with L s" "fst (sys_socket os k s) = Inr fd"
  shows "fd_with (add_mset fd L) (snd (sys_socket os k s))"
proof -
  have "held (snd (sys_socket os k s)) = held s" by (rule held_cong) simp_all
  moreover have "open_fds (trace (snd (sys_socket os k s))) = add_mset fd (open_fds (trace s))"
    using assms(2) by (simp add: sys_socket_def)
  ultimately show ?thesis using assms(1) by (simp add: fd_with_def)
qed

lemma fd_socket_error:
  assumes "fd_with L s" "fst (sys_socket os k s) = Inl e"
  shows "fd_with L (snd (sys_socket os k s))"
  using assms by (simp add: sys_socket_def fd_quiet.obs_tick)

lemma fd_close:
  assumes "fd_with (add_mset fd L) s" "0 \<le> fd"
  shows "fd_with L (closeFD os fd s)"
proof -
  have "held (closeFD os fd s) = held s" by (rule held_cong) simp_all
  moreover have "open_fds (trace (closeFD os fd s)) = open_fds (trace s) - {#fd#}"
    using assms(2) by (simp add: closeFD_def)
  ultimately show ?thesis using assms(1) by (simp add: fd_with_def)
qed

text \<open>A write to an object that gives up or takes descriptors.\<close>

lemma fd_upd:
  assumes "fd_with L s" "p < nextPtr s" "fds_of (f (heap s p)) + M = fds_of (heap s p) + L"
    and "\<forall>x \<in># L. 0 \<le> x"
  shows "fd_with M (upd p f s)"
proof -
  have "held (upd p f s) + fds_of (heap s p) + M = held s + (fds_of (heap s p) + L)"
    unfolding assms(3) [symmetric] using held_upd [OF assms(2), of f] by simp
  then have "held (upd p f s) + M = held s + L" by (simp add: ac_simps)
  moreover have "\<forall>x \<in># fds_of (f (heap s p)). 0 \<le> x"
  proof
    fix x assume "x \<in># fds_of (f (heap s p))"
    then have "x \<in># fds_of (heap s p) + L" using assms(3) by (metis union_iff)
    then show "0 \<le> x" using assms(1, 4) by (auto simp: fd_with_def)
  qed
  ultimately show ?thesis using assms(1) by (simp add: fd_with_def)
qed

lemma fd_chans [simp]: "fd_with L (close_chan c s) = fd_with L s" "fd_with L (snd (make_chan s)) = fd_with L s"
  "fd_with L (go r s) = fd_with L s" "fd_with L (s\<lparr>panicked := b\<rparr>) = fd_with L s"
  by (rule fd_with_cong; simp add: close_chan_def make_chan_def go_def)+

lemma fd_timers [simp]: "fd_with L (timer_Stop t s) = fd_with L s" "fd_with L (snd (AfterFunc ms k s)) = fd_with L s"
  by (rule fd_with_cong; simp add: timer_Stop_def AfterFunc_def)+

lemma fd_same [simp]: "(\<And>i. socks_part (f i) = socks_part i) \<Longrightarrow> fd_with L (upd p f s) = fd_with L s"
  by (rule fd_with_cong) (auto intro: fds_of_cong)

lemma fd_rsTimer [simp]: "fd_with L (stop_rsTimer p s) = fd_with L s" "fd_with L (arm_rsTimer ms p g s) = fd_with L s"
  by (simp_all add: stop_rsTimer_def arm_rsTimer_def case_prod_beta socks_part_def split: option.split)

section \<open>The services\<close>

lemma fd_nonneg: "fd_with L s \<Longrightarrow> x \<in># fds_of (heap s p) \<Longrightarrow> 0 \<le> x"
  by (auto simp: fd_with_def)

text \<open>Giving descriptors up for closing.\<close>

lemma fd_release:
  assumes "fd_with {#} s" "p < nextPtr s" "fds_of (heap s p) = fds_of (f (heap s p)) + M"
  shows "fd_with M (upd p f s)"
  by (rule fd_upd [OF assms(1, 2)]) (simp_all add: assms(3))

lemma fd_closeFD_upd: "fd_with L (upd p f (closeFD os fd s)) = fd_with L (closeFD os fd (upd p f s))"
  by (rule fd_with_cong) (simp_all add: closeFD_def)

lemma fd_chan_upd: "fd_with L (upd p f (close_chan c s)) = fd_with L (upd p f s)"
  by (rule fd_with_cong) (simp_all add: close_chan_def)

lemma fd_router_teardown:
  assumes "fd_with {#} s" "p < nextPtr s"
  shows "fd_with {#} (router_teardown os p s)"
proof (cases "router (heap s p)")
  case (Some r)
  have f: "fds_of (heap s p) = fds_of ((heap s p)\<lparr>router := None\<rparr>) + {#rs_fd r#}" using Some by (simp add: fds_of_def)
  have "fd_with {#} (closeFD os (rs_fd r) (upd p (\<lambda>i. i\<lparr>router := None\<rparr>) (close_chan (rs_done r) s)))"
    by (rule fd_close) (use fd_release [where f = "\<lambda>i. i\<lparr>router := None\<rparr>", OF assms f] fd_nonneg [OF assms(1), of _ p] f in \<open>simp_all add: fd_chan_upd\<close>)
  then show ?thesis using Some by (simp add: router_teardown_def fd_closeFD_upd)
qed (use assms in \<open>simp add: router_teardown_def\<close>)

lemma fd_dhcp_teardown:
  assumes "fd_with {#} s" "p < nextPtr s"
  shows "fd_with {#} (dhcp_teardown os p s)"
proof (cases "dhcp (heap s p)")
  case (Some d)
  have f: "fds_of (heap s p) = fds_of ((heap s p)\<lparr>dhcp := None\<rparr>) + {#ds_fd d#}" using Some by (simp add: fds_of_def)
  have "fd_with {#} (closeFD os (ds_fd d) (upd p (\<lambda>i. i\<lparr>dhcp := None\<rparr>) (close_chan (ds_done d) s)))"
    by (rule fd_close) (use fd_release [where f = "\<lambda>i. i\<lparr>dhcp := None\<rparr>", OF assms f] fd_nonneg [OF assms(1), of _ p] f in \<open>simp_all add: fd_chan_upd\<close>)
  then show ?thesis using Some by (simp add: dhcp_teardown_def fd_closeFD_upd)
qed (use assms in \<open>simp add: dhcp_teardown_def\<close>)

lemma fd_ndp_teardown:
  assumes "fd_with {#} s" "p < nextPtr s"
  shows "fd_with {#} (ndp_teardown os p s)"
proof (cases "ndp (heap s p)")
  case (Some n)
  have f: "fds_of (heap s p) = fds_of ((heap s p)\<lparr>ndp := None\<rparr>) + {#ns_fd n, ns_pingFd n#}"
    using Some by (simp add: fds_of_def)
  have "fd_with {#ns_pingFd n#} (closeFD os (ns_fd n) (upd p (\<lambda>i. i\<lparr>ndp := None\<rparr>) (close_chan (ns_done n) s)))"
    by (rule fd_close) (use fd_release [where f = "\<lambda>i. i\<lparr>ndp := None\<rparr>", OF assms f] fd_nonneg [OF assms(1), of _ p] f in \<open>simp_all add: fd_chan_upd add_mset_commute\<close>)
  then have "fd_with {#} (closeFD os (ns_pingFd n) (closeFD os (ns_fd n) (upd p (\<lambda>i. i\<lparr>ndp := None\<rparr>) (close_chan (ns_done n) s))))"
    by (rule fd_close) (use fd_nonneg [OF assms(1), of _ p] f in simp)
  moreover have "fd_with L (upd p g (closeFD os b (closeFD os a x))) = fd_with L (closeFD os b (closeFD os a (upd p g x)))" for L a b x g
    by (rule fd_with_cong) (simp_all add: closeFD_def)
  ultimately show ?thesis using Some by (simp add: ndp_teardown_def)
qed (use assms in \<open>simp add: ndp_teardown_def\<close>)

text \<open>The socket options neither open nor close anything.\<close>

lemma fd_options [simp]:
  "fd_with L (snd (seq_calls os (router_options fd i) s)) = fd_with L s"
  "fd_with L (snd (seq_calls os (router_joins fd filt i) s)) = fd_with L s"
  "fd_with L (snd (seq_calls os (dhcp_options fd i) s)) = fd_with L s"
  "fd_with L (snd (seq_calls os (ping_options fd i) s)) = fd_with L s"
  "fd_with L (snd (seq_calls os (capture_options fd i) s)) = fd_with L s"
  "fd_with L (snd (seq_calls os [(attachFilter fd prog, m)] s)) = fd_with L s"
  by (rule fd_quiet.obs_seq_quiet; simp add: router_options_def router_joins_def dhcp_options_def ping_options_def
      capture_options_def bindToDevice_def setsockoptInt_def joinMulticast6_def attachFilter_def)+

lemma fd_dhcpv6Setup:
  assumes "fd_with {#} s" "p < nextPtr s" "os_fds os"
  shows "fd_with {#} (snd (dhcpv6Setup os p e s))"
proof -
  define t where "t = dhcp_teardown os p s"
  have t: "fd_with {#} t" "p < nextPtr t" "dhcp (heap t p) = None"
    using fd_dhcp_teardown [OF assms(1, 2)] assms(2) by (simp_all add: t_def) (simp add: dhcp_teardown_def split: option.split)
  define u where "u = snd (sys_socket os UdpSocket t)"
  show ?thesis
  proof (cases "fst (sys_socket os UdpSocket t)")
    case (Inl er)
    then show ?thesis using t(1) fd_socket_error [OF t(1) Inl]
      by (simp add: dhcpv6Setup_def Let_def case_prod_beta flip: t_def)
  next
    case (Inr fd)
    have u: "fd_with {#fd#} u" "0 \<le> fd" "p < nextPtr u" "dhcp (heap u p) = None"
      using fd_socket [OF t(1) Inr] Inr assms(3) t(2, 3) by (simp_all add: u_def os_fds_def sys_socket_def split: sum.splits)
    define v where "v = snd (seq_calls os (dhcp_options fd (heap t p)) u)"
    have v: "fd_with {#fd#} v" "p < nextPtr v" "dhcp (heap v p) = None" using u by (simp_all add: v_def)
    have open_it: "fd_with {#} (upd p (\<lambda>i. i\<lparr>dhcp := Some \<lparr>ds_fd = fd, ds_iface = p, ds_done = c\<rparr>\<rparr>) (snd (make_chan v)))" for c
      by (rule fd_upd [of "{#fd#}"]) (use v u(2) in \<open>simp_all add: fds_of_def\<close>)
    show ?thesis
      using t(1) Inr fd_close [OF v(1) u(2)] open_it
      by (simp add: dhcpv6Setup_def Let_def case_prod_beta flip: t_def) (simp flip: u_def add: v_def [symmetric])
  qed
qed

lemma fd_routerSetup:
  assumes "fd_with {#} s" "p < nextPtr s" "os_fds os"
  shows "fd_with {#} (snd (routerSetup os p e s))"
proof -
  define t where "t = router_teardown os p s"
  have t: "fd_with {#} t" "p < nextPtr t" "router (heap t p) = None"
    using fd_router_teardown [OF assms(1, 2)] assms(2) by (simp_all add: t_def) (simp add: router_teardown_def split: option.split)
  obtain filt where filt: "router_filter = Some filt" using router_filter_ok by blast
  define u where "u = snd (sys_socket os RawICMPv6Socket t)"
  show ?thesis
  proof (cases "fst (sys_socket os RawICMPv6Socket t)")
    case (Inl er)
    then show ?thesis using t(1) fd_socket_error [OF t(1) Inl]
      by (simp add: routerSetup_def Let_def case_prod_beta flip: t_def)
  next
    case (Inr fd)
    have u: "fd_with {#fd#} u" "0 \<le> fd" "p < nextPtr u" "router (heap u p) = None"
      using fd_socket [OF t(1) Inr] Inr assms(3) t(2, 3) by (simp_all add: u_def os_fds_def sys_socket_def split: sum.splits)
    define v where "v = snd (seq_calls os (router_options fd (heap t p)) u)"
    define w where "w = snd (seq_calls os (router_joins fd filt (heap t p)) v)"
    have v: "fd_with {#fd#} v" using u by (simp add: v_def)
    have w: "fd_with {#fd#} w" "p < nextPtr w" "router (heap w p) = None" using u by (simp_all add: w_def v_def)
    have open_it: "fd_with {#} (upd p (\<lambda>i. i\<lparr>router := Some \<lparr>rs_fd = fd, rs_iface = p, rs_done = c\<rparr>, raSent := 0\<rparr>) (snd (make_chan w)))" for c
      by (rule fd_upd [of "{#fd#}"]) (use w u(2) in \<open>simp_all add: fds_of_def\<close>)
    have n: "fd_with L (upd p (\<lambda>i. i\<lparr>rsTimerN := rsTimerN i + 1\<rparr>) x) = fd_with L x" for L x
      by (rule fd_same) (simp add: socks_part_def)
    show ?thesis
      using t(1) Inr fd_close [OF v(1) u(2)] fd_close [OF w(1) u(2)] open_it
      by (simp add: routerSetup_def Let_def case_prod_beta filt n flip: t_def)
        (simp flip: u_def add: v_def [symmetric] w_def [symmetric])
  qed
qed

lemma fd_ndp_capture:
  assumes "fd_with {#captureFd, pingFd#} s" "p < nextPtr s" "ndp (heap s p) = None" "0 \<le> captureFd" "0 \<le> pingFd"
  shows "fd_with {#} (snd (ndp_capture os p pingFd captureFd s))"
proof -
  have fail: "fd_with {#} (closeFD os pingFd (closeFD os captureFd x))" if "fd_with {#captureFd, pingFd#} x" for x
    using fd_close [OF fd_close [OF _ assms(4)] assms(5)] that by (simp add: add_mset_commute)
  have open_it: "fd_with {#} (upd p (\<lambda>i. i\<lparr>ndp := Some \<lparr>ns_fd = captureFd, ns_pingFd = pingFd, ns_iface = p, ns_done = c\<rparr>\<rparr>) (snd (make_chan x)))"
    if "fd_with {#captureFd, pingFd#} x" "p < nextPtr x" "ndp (heap x p) = None" for c x
    by (rule fd_upd [of "{#captureFd, pingFd#}"]) (use that assms(4, 5) in \<open>simp_all add: fds_of_def\<close>)
  show ?thesis
    using assms(1-3) by (auto simp: ndp_capture_def Let_def case_prod_beta fail open_it simp del: seq_calls.simps)
qed

lemma fd_ndpSetup:
  assumes "fd_with {#} s" "p < nextPtr s" "os_fds os"
  shows "fd_with {#} (snd (ndpSetup os p e s))"
proof -
  define t where "t = ndp_teardown os p s"
  have t: "fd_with {#} t" "p < nextPtr t" "ndp (heap t p) = None"
    using fd_ndp_teardown [OF assms(1, 2)] assms(2) by (simp_all add: t_def) (simp add: ndp_teardown_def split: option.split)
  show ?thesis
  proof (cases "fst (sys_socket os RawICMPv6Socket t)")
    case (Inl er)
    then show ?thesis using t(1) fd_socket_error [OF t(1) Inl]
      by (simp add: ndpSetup_def Let_def case_prod_beta flip: t_def)
  next
    case (Inr fd)
    define u where "u = snd (sys_socket os RawICMPv6Socket t)"
    have u: "fd_with {#fd#} u" "0 \<le> fd" "p < nextPtr u" "ndp (heap u p) = None"
      using fd_socket [OF t(1) Inr] Inr assms(3) t(2, 3) by (simp_all add: u_def os_fds_def sys_socket_def split: sum.splits)
    define v where "v = snd (seq_calls os (ping_options fd (heap t p)) u)"
    have v: "fd_with {#fd#} v" "p < nextPtr v" "ndp (heap v p) = None" using u by (simp_all add: v_def)
    have "fd_with {#} (snd (case sys_socket os k v of
        (Inl e, s) \<Rightarrow> (Some e, closeFD os fd (Errorf m s))
      | (Inr captureFd, s) \<Rightarrow> ndp_capture os p fd captureFd s))" for k m
    proof (cases "fst (sys_socket os k v)")
      case (Inl er)
      then show ?thesis using fd_close [OF _ u(2)] fd_socket_error [OF v(1) Inl] by (simp add: case_prod_beta)
    next
      case (Inr c)
      have "fd_with {#c, fd#} (snd (sys_socket os k v))" "0 \<le> c"
        using fd_socket [OF v(1) Inr] Inr assms(3) by (simp_all add: os_fds_def sys_socket_def split: sum.splits)
      with v u(2) Inr show ?thesis using fd_ndp_capture by (simp add: case_prod_beta)
    qed
    then show ?thesis
      using t(1) Inr fd_close [OF v(1) u(2)]
      by (simp add: ndpSetup_def Let_def case_prod_beta v_def u_def flip: t_def)
  qed
qed

section \<open>Every handler\<close>

lemma fd_fields: "fd_with L (s\<lparr>interfaces := is\<rparr>) = fd_with L s" "fd_with L (s\<lparr>lg := l\<rparr>) = fd_with L s"
  by (rule fd_with_cong; simp)+

lemma fd_new:
  assumes "fd_with L s" "socks_part i = (None, None, None)"
  shows "fd_with L (new_object i s)"
proof -
  have i: "fds_of i = {#}" using assms(2) by (simp add: socks_part_def fds_of_def)
  then have "held (new_object i s) = held s" by (simp add: held_def new_object_def)
  then show ?thesis using assms(1) i by (simp add: fd_with_def) (simp add: new_object_def)
qed

text \<open>The descriptor invariant of a kernel with non-negative descriptors is kept by every handler.\<close>

definition fd_inv :: "os \<Rightarrow> st \<Rightarrow> bool" where
  "fd_inv os s = (os_fds os \<longrightarrow> fd_with {#} s)"

interpretation fd_base: handler_base "fd_inv os" os for os
proof unfold_locales
  show "fd_inv os (upd p f s) = fd_inv os s" if "\<And>i. rs_part (f i) = rs_part i \<and> socks_part (f i) = socks_part i" for p f s
    using that by (simp add: fd_inv_def)
  show "fd_inv os (new_object i s)" if "fd_inv os s" "rs_part i = (None, 0, 0)" "socks_part i = (None, None, None)" for i s
    using that fd_new by (simp add: fd_inv_def)
qed (simp_all add: fd_inv_def fd_fields fd_routerSetup fd_dhcpv6Setup fd_ndpSetup fd_quiet.obs_clk fd_quiet.obs_did
    fd_quiet.obs_log fd_quiet.obs_mirrored)

end
