(* ===== verification/Engine.thy ===== *)
theory Engine
  imports Descriptors
begin

text \<open>
  \<^verbatim>\<open>engine.go\<close>: the single goroutine that runs every posted closure, the
  bounded channel in front of it, and the goroutines that post: timers, socket readers, the netlink
  monitor and the signal handler. A closure is an event; running it is running its handler. The step
  relation interleaves the engine with everything that posts, and its reachable states are all the states
  the daemon can be in.
\<close>

section \<open>Closures and handlers\<close>

datatype event =
    EvReload
  | EvLink linkUpdate
  | EvAddr addrUpdate
  | EvNeigh neighUpdate
  | EvRoute routeUpdate
  | EvSweep
  | EvReconcile
  | EvSolicit ptr int
  | EvDHCP dhcpSock addr bytes
  | EvICMP routerSock bytes
  | EvNS ndpSock bytes bytes

text \<open>
  \<^verbatim>\<open>Run\<close> calls the closure it has taken from the channel. The constructors of \<open>event\<close> are the closures the
  program posts: \<open>EvReload\<close> in \<^verbatim>\<open>main.go\<close> (line 118 at a hangup, line 126 at the start), the four netlink events and
  the sweep in \<^verbatim>\<open>netlink.go\<close> (lines 64, 69, 74, 79 and 131), \<open>EvReconcile\<close> at its line 282, \<open>EvSolicit\<close> at lines 121,
  138, 145 and 153 of \<^verbatim>\<open>router.go\<close>, and the packets of the readers at line 298 of \<^verbatim>\<open>router.go\<close>, 154 of
  \<^verbatim>\<open>dhcpv6.go\<close> and 234 of \<^verbatim>\<open>ndp.go\<close>. \<open>None\<close> is a run-time panic of the handler.
\<close>

fun run_event :: "os \<Rightarrow> event \<Rightarrow> st \<Rightarrow> st option" where
  "run_event os EvReload s = Some (Reload os s)"
| "run_event os (EvLink u) s = Some (handleLinkEvent os u s)"
| "run_event os (EvAddr u) s = Some (handleAddrEvent os u s)"
| "run_event os (EvNeigh u) s = Some (handleNeighEvent os u s)"
| "run_event os (EvRoute u) s = Some (handleRouteEvent os u s)"
| "run_event os EvSweep s = Some (sweepFailedAndOrphans os s)"
| "run_event os EvReconcile s = Some (reconcileFire os s)"
| "run_event os (EvSolicit p gen) s = Some (solicitTimerFire os p gen s)"
| "run_event os (EvDHCP ds src data) s = handleDHCPv6 os ds src data s"
| "run_event os (EvICMP rs data) s = handleICMPv6 os rs data s"
| "run_event os (EvNS ns mac data) s = handleSolicit os ns mac data s"

section \<open>The engine's channel\<close>

text \<open>
  A buffered channel of 1024 closures: \<^verbatim>\<open>Post\<close> blocks (\<open>None\<close>) when it is full, the loop of \<^verbatim>\<open>Run\<close> takes
  the oldest closure.
\<close>

abbreviation engine_cap :: nat where "engine_cap \<equiv> 1024"

definition NewEngine :: "event list" where
  "NewEngine = []"

definition Post :: "event \<Rightarrow> event list \<Rightarrow> event list option" where
  "Post e q = (if length q < engine_cap then Some (q @ [e]) else None)"

fun Run_next :: "event list \<Rightarrow> (event \<times> event list) option" where
  "Run_next [] = None"
| "Run_next (e # q) = Some (e, q)"

locale bounded_fifo =
  fixes post :: "'e \<Rightarrow> 'q \<Rightarrow> 'q option"
    and take_next :: "'q \<Rightarrow> ('e \<times> 'q) option"
    and contents :: "'q \<Rightarrow> 'e list"
    and cap :: nat
  assumes post_contents: "post e q = Some q' \<Longrightarrow> contents q' = contents q @ [e]"
    and post_blocks: "post e q = None \<longleftrightarrow> cap \<le> length (contents q)"
    and next_contents: "take_next q = Some (e, q') \<Longrightarrow> contents q = e # contents q'"
    and next_blocks: "take_next q = None \<longleftrightarrow> contents q = []"
begin

lemma post_bound: "length (contents q) \<le> cap \<Longrightarrow> post e q = Some q' \<Longrightarrow> length (contents q') \<le> cap"
  using post_contents [of e q q'] post_blocks [of e q] by auto

end

interpretation eng: bounded_fifo Post Run_next "\<lambda>q. q" engine_cap
proof unfold_locales
  show "(Run_next q = None) = (q = [])" for q by (cases q) simp_all
  show "Run_next q = Some (e, q') \<Longrightarrow> q = e # q'" for q e q' by (cases q) simp_all
qed (auto simp: Post_def split: if_splits)

section \<open>The daemon\<close>

text \<open>
  \<open>w_blocked\<close> holds the callbacks of timers that have expired and whose \<^verbatim>\<open>Post\<close> has not gone through yet, in
  no particular order: each runs on a goroutine of its own, which waits if the channel is full. Stopping the timer no
  longer affects such a callback.
\<close>

record world =
  w_st :: st
  w_blocked :: "event list"
  w_queue :: "event list"

text \<open>A closure the netlink monitor posts for an update it received.\<close>

fun from_netlink :: "event \<Rightarrow> bool" where
  "from_netlink (EvLink u) = True"
| "from_netlink (EvAddr u) = True"
| "from_netlink (EvNeigh u) = True"
| "from_netlink (EvRoute u) = True"
| "from_netlink _ = False"

text \<open>
  The goroutine of \<^verbatim>\<open>main.go\<close> that waits for signals: a hangup posts a reload (\<open>Inr None\<close>: it blocks on the
  full channel), an interrupt or a termination ends the process with status 0.
\<close>

datatype signal = SIGHUP | SIGINT | SIGTERM

fun on_signal :: "signal \<Rightarrow> event list \<Rightarrow> int + event list option" where
  "on_signal SIGHUP q = Inr (Post EvReload q)"
| "on_signal SIGINT q = Inl 0"
| "on_signal SIGTERM q = Inl 0"

text \<open>
  What one round of a reader goroutine does, given what \<^verbatim>\<open>Recvmsg\<close> returned and what its two looks at
  \<^verbatim>\<open>done\<close> saw.
\<close>

datatype received =
    RouterRecv "errno + bytes \<times> (errno + cmsg list)"
  | DhcpRecv "errno + bytes \<times> (errno + cmsg list) \<times> bytes option"
  | NdpRecv "errno + bytes \<times> bytes option"

fun reader_round :: "reader \<Rightarrow> bool \<Rightarrow> received \<Rightarrow> bool \<Rightarrow> event readRound" where
  "reader_round (RouterReader rs) d1 (RouterRecv r) d2 =
     (case routerReadLoop_round d1 r d2 of ReadPost data \<Rightarrow> ReadPost (EvICMP rs data)
      | ReadExit \<Rightarrow> ReadExit | ReadNext \<Rightarrow> ReadNext | ReadPause \<Rightarrow> ReadPause)"
| "reader_round (DhcpReader ds) d1 (DhcpRecv r) d2 =
     (case dhcpReadLoop_round d1 r d2 of ReadPost (src, data) \<Rightarrow> ReadPost (EvDHCP ds src data)
      | ReadExit \<Rightarrow> ReadExit | ReadNext \<Rightarrow> ReadNext | ReadPause \<Rightarrow> ReadPause)"
| "reader_round (NdpReader ns) d1 (NdpRecv r) d2 =
     (case ndpReadLoop_round d1 r d2 of ReadPost (mac, data) \<Rightarrow> ReadPost (EvNS ns mac data)
      | ReadExit \<Rightarrow> ReadExit | ReadNext \<Rightarrow> ReadNext | ReadPause \<Rightarrow> ReadPause)"
| "reader_round _ d1 _ d2 = ReadNext"

fun reader_done :: "reader \<Rightarrow> nat" where
  "reader_done (RouterReader rs) = rs_done rs"
| "reader_done (DhcpReader ds) = ds_done ds"
| "reader_done (NdpReader ns) = ns_done ns"

text \<open>What a timer's callback posts.\<close>

fun posted_by :: "timer \<Rightarrow> event" where
  "posted_by (SolicitTimer p gen) = EvSolicit p gen"
| "posted_by ReconcileTimer = EvReconcile"
| "posted_by SweepTick = EvSweep"

text \<open>What a callback still does once its closure is posted: the tick of the sweep arms the next one.\<close>

definition after_post :: "event \<Rightarrow> st \<Rightarrow> st" where
  "after_post e s = (if e = EvSweep then snd (sweepTick False s) else s)"

text \<open>
  What a step is, for the outside: a closure was run, a closure was posted, or neither. A timer that expires
  and the post of its callback are two steps, with anything in between. A reader, the monitor and the signal
  goroutine keep nothing that a handler could change while they wait for the channel, so their round is one step,
  taken when the post goes through.
\<close>

datatype label = Ran event | Posted event | Quiet

inductive step :: "os \<Rightarrow> world \<Rightarrow> label \<Rightarrow> world \<Rightarrow> bool" for os where
  Run: "Run_next (w_queue w) = Some (e, q) \<Longrightarrow> run_event os e (w_st w) = Some s \<Longrightarrow>
    step os w (Ran e) (w\<lparr>w_st := s, w_queue := q\<rparr>)"
| TimerExpires: "(t, ms, k) \<in> set (timers (w_st w)) \<Longrightarrow>
    step os w Quiet (w\<lparr>w_st := fire t (w_st w), w_blocked := posted_by k # w_blocked w\<rparr>)"
| CallbackPosts: "w_blocked w = bs @ e # cs \<Longrightarrow> Post e (w_queue w) = Some q \<Longrightarrow>
    step os w (Posted e) \<lparr>w_st = after_post e (w_st w), w_blocked = bs @ cs, w_queue = q\<rparr>"
| NetlinkPosts: "from_netlink e \<Longrightarrow> Post e (w_queue w) = Some q \<Longrightarrow> step os w (Posted e) (w\<lparr>w_queue := q\<rparr>)"
| SignalPosts: "on_signal sig (w_queue w) = Inr (Some q) \<Longrightarrow> step os w (Posted EvReload) (w\<lparr>w_queue := q\<rparr>)"
| ReaderPosts: "r \<in> set (readers (w_st w)) \<Longrightarrow>
    d1 \<or> d2 \<longrightarrow> reader_done r \<in> set (closedChans (w_st w)) \<Longrightarrow>
    reader_round r d1 recv d2 = ReadPost e \<Longrightarrow> Post e (w_queue w) = Some q \<Longrightarrow>
    step os w (Posted e) (w\<lparr>w_queue := q\<rparr>)"
| ReaderExits: "r \<in> set (readers (w_st w)) \<Longrightarrow>
    d1 \<or> d2 \<longrightarrow> reader_done r \<in> set (closedChans (w_st w)) \<Longrightarrow>
    reader_round r d1 recv d2 = ReadExit \<Longrightarrow>
    step os w Quiet (w\<lparr>w_st := (w_st w)\<lparr>readers := removeAll r (readers (w_st w))\<rparr>\<rparr>)"

inductive_cases step_RunE: "step os w (Ran e) w'"

text \<open>The reachable states, with the steps that lead there.\<close>

inductive reach :: "os \<Rightarrow> world \<Rightarrow> label list \<Rightarrow> world \<Rightarrow> bool" for os where
  reach_refl: "reach os w [] w"
| reach_step: "reach os w0 ls w \<Longrightarrow> step os w l w' \<Longrightarrow> reach os w0 (ls @ [l]) w'"

section \<open>Handlers of packets\<close>

context quiet_obs
begin

lemma obs_handleDHCPv6: "handleDHCPv6 os ds src data s = Some s' \<Longrightarrow> obs s' = obs s"
  using obs_relayServerResponse [of os data s s']
  by (auto simp: handleDHCPv6_def Let_def relayClientRequest_hop split: if_splits option.splits)

lemma obs_advertise_on: "advertise_on os own data c s = Some s' \<Longrightarrow> obs s' = obs s"
  by (auto simp: advertise_on_def case_prod_beta split: if_splits Option.bind_splits)

lemma obs_advertise_all: "fold_opt (advertise_on os own data) cs s = Some s' \<Longrightarrow> obs s' = obs s"
  by (induction cs arbitrary: s) (auto split: Option.bind_splits option.splits dest: obs_advertise_on)

lemma obs_handleICMPv6: "handleICMPv6 os rs data s = Some s' \<Longrightarrow> obs s' = obs s"
  by (auto simp: handleICMPv6_def Let_def forwardRouterAdvertisement_def case_prod_beta
      split: if_splits Option.bind_splits dest: obs_advertise_all)

end

lemma handleDHCPv6_total: "\<exists>s'. handleDHCPv6 os ds src data s = Some s'"
  using relayServerResponse_sends [of os data s]
  by (auto simp: handleDHCPv6_def Let_def relayClientRequest_hop)

lemma handleICMPv6_total: "\<exists>s'. handleICMPv6 os rs data s = Some s'"
proof -
  have "\<exists>s'. forwardRouterAdvertisement os p data s = Some s'" for p
    using advertise_all [of os "Ifindex (heap (snd (range_interfaces os s)) p)" data "fst (range_interfaces os s)"
        "snd (range_interfaces os s)"]
    by (auto simp: forwardRouterAdvertisement_def case_prod_beta)
  moreover have "at data 0 = Some (data ! 0)" "at data 1 = Some (data ! 1)" if "\<not> length data < 4"
    using that by (cases data, simp_all add: at_def)+
  ultimately show ?thesis by (auto simp: handleICMPv6_def Let_def)
qed

section \<open>The invariant of the whole daemon\<close>

definition queued :: "event list \<Rightarrow> ptr \<Rightarrow> int \<Rightarrow> nat" where
  "queued q p g = count_list q (EvSolicit p g)"

text \<open>
  The state is well formed; the timers and the closures they have handed over, waiting (\<open>q\<close>: blocked or posted),
  agree with the state: at most one solicitation is due per generation of an interface and it has sent at most
  three, exactly one reconciliation is under way if the flag says so and none otherwise, and \<open>m\<close> sweep ticks
  are armed. For the daemon: one sweep tick is armed or its callback is about to post; and the channel is
  within its bound.
\<close>

definition state_inv :: "nat \<Rightarrow> event list \<Rightarrow> st \<Rightarrow> bool" where
  "state_inv m q s = (daemon_ok s \<and> timer_inv (queued q) (timers_of ReconcileTimer s) m s \<and>
     timers_of ReconcileTimer s + count_list q EvReconcile = of_bool (reconcileScheduled s))"

definition world_inv :: "world \<Rightarrow> bool" where
  "world_inv w = (state_inv (1 - count_list (w_blocked w) EvSweep) (w_blocked w @ w_queue w) (w_st w) \<and>
     count_list (w_blocked w) EvSweep \<le> 1 \<and> length (w_queue w) \<le> engine_cap)"

text \<open>The order of the waiting closures does not matter to the invariant.\<close>

lemma state_inv_perm: "mset q = mset q' \<Longrightarrow> state_inv m q s = state_inv m q' s"
proof -
  assume "mset q = mset q'"
  then have "count_list q x = count_list q' x" for x by (metis count_mset)
  then have "queued q = queued q'" "count_list q EvReconcile = count_list q' EvReconcile"
    by (simp_all add: queued_def fun_eq_iff)
  then show ?thesis by (simp add: state_inv_def)
qed

interpretation flag_hinv: handler_inv "\<lambda>s. reconcileScheduled s = b" for b
  by unfold_locales (simp_all add: bump_def new_object_def stop_rsTimer_def timer_Stop_def split: option.split)

lemma timer_inv_counts: "timer_inv q n m s \<Longrightarrow> timers_of ReconcileTimer s = n"
  by (simp add: timer_inv_def)

text \<open>A handler that keeps the timer invariant and the flag keeps the invariant of the daemon.\<close>

lemma state_inv_keep:
  assumes "state_inv m q s" "daemon_ok t"
    and "\<And>n. timer_inv (queued q) n m s \<Longrightarrow> timer_inv (queued q) n m t"
    and "reconcileScheduled t = reconcileScheduled s"
  shows "state_inv m q t"
proof -
  have "timer_inv (queued q) (timers_of ReconcileTimer s) m t" using assms(1, 3) by (simp add: state_inv_def)
  with timer_inv_counts [OF this] assms show ?thesis by (simp add: state_inv_def)
qed

lemma queued_Cons [simp]:
  "queued (EvSolicit p g # q) = enqueue p g (queued q)"
  "\<forall>p g. e \<noteq> EvSolicit p g \<Longrightarrow> queued (e # q) = queued q"
  by (auto simp: queued_def enqueue_def fun_eq_iff)

lemma dequeue_enqueue [simp]: "dequeue p g (enqueue p g q) = q"
  by (simp add: dequeue_def enqueue_def)

lemma state_inv_other:
  "\<forall>p g. e \<noteq> EvSolicit p g \<Longrightarrow> e \<noteq> EvReconcile \<Longrightarrow> state_inv m (e # q) s = state_inv m q s"
  by (simp add: state_inv_def)

lemma handleSolicit_keep:
  assumes "handleSolicit os ns mac data s = Some t" "state_inv m q s"
  shows "state_inv m q t"
proof -
  have ping: "daemon_ok (ping_on os a p c x)" if "daemon_ok x" for a p c x
  proof -
    have "daemon_ok (sendICMP6WithLLSrc os fd p' d i b y)" if "daemon_ok y" for fd p' d i b y
      using daemon_ll [OF that, of p'] that
      by (auto simp: sendICMP6WithLLSrc_def case_prod_beta split: option.split)
    with that show ?thesis by (simp add: ping_on_def relayPing_def Let_def split: option.split)
  qed
  have all: "daemon_ok (fold (ping_on os a p) cs x)" if "daemon_ok x" for a p cs x
    by (rule fold_inv [where I = daemon_ok]) (use that ping in auto)
  have tm: "timer_inv k n m (fold (ping_on os a p) cs x) = timer_inv k n m x" for k n m a p cs x
    by (rule fold_frame) simp
  have d: "daemon_ok s" using assms(2) by (simp add: state_inv_def)
  have t: "t = (let p = ns_iface ns in
     if ndp (heap s p) \<noteq> Some ns \<or> NDP (heap s p) \<noteq> ModeRelay then s
     else case ns_target data of
         None \<Rightarrow> s
       | Some t \<Rightarrow>
           (let s1 = snd (getMAC os p s)
            in if own_probe os mac p s then s1
               else fold (ping_on os t p) (fst (range_interfaces os s1)) (snd (range_interfaces os s1))))"
    using assms(1) by (simp add: handleSolicit_Some)
  show ?thesis
  proof (rule state_inv_keep [OF assms(2)])
    show "daemon_ok t" unfolding t using d by (auto simp: Let_def intro!: all split: option.split)
    show "timer_inv (queued q) n m t" if "timer_inv (queued q) n m s" for n
      unfolding t using that by (auto simp: Let_def tm split: option.split)
    show "reconcileScheduled t = reconcileScheduled s"
      unfolding t by (auto simp: Let_def fold_frame [where obs = reconcileScheduled] split: option.split)
  qed
qed

lemma handleRouteEvent_state:
  "handleRouteEvent os u s = s \<or> handleRouteEvent os u s = tick s \<or> handleRouteEvent os u s = scheduleReconcile (tick s)"
proof -
  obtain r t where g: "ifaceByIndex os (rt_LinkIndex (ru_Route u)) s = (r, t)" by (metis surj_pair)
  then have t: "t = tick s" by (auto simp: ifaceByIndex_def range_interfaces_def)
  show ?thesis by (cases r) (auto simp: handleRouteEvent_def g t)
qed

lemma scheduleReconcile_keep:
  assumes "state_inv m q s"
  shows "state_inv m q (scheduleReconcile s)"
proof -
  let ?n = "timers_of ReconcileTimer s"
  have i: "timer_inv (queued q) (?n + of_bool (\<not> reconcileScheduled s)) m (scheduleReconcile s)"
    using scheduleReconcile_inv [of "queued q" ?n m s] assms by (simp add: state_inv_def)
  have f: "reconcileScheduled (scheduleReconcile s)" by (simp add: scheduleReconcile_def AfterFunc_def)
  show ?thesis
    using i timer_inv_counts [OF i] f assms by (auto simp: state_inv_def)
qed

lemma state_inv_tick [simp]: "state_inv m q (tick s) = state_inv m q s"
proof -
  have "timers_of ReconcileTimer (tick s) = timers_of ReconcileTimer s" by (simp add: timers_of_def)
  then show ?thesis by (simp add: state_inv_def)
qed

lemma handleRouteEvent_keep: "state_inv m q s \<Longrightarrow> state_inv m q (handleRouteEvent os u s)"
  using handleRouteEvent_state [of os u s] scheduleReconcile_keep [of m q "tick s"] by auto

lemma reconcileFire_keep:
  assumes "state_inv m (EvReconcile # q) s"
  shows "state_inv m q (reconcileFire os s)"
proof -
  let ?s = "s\<lparr>reconcileScheduled := False\<rparr>"
  have c: "timers_of ReconcileTimer ?s = timers_of ReconcileTimer s" by (simp add: timers_of_def)
  have z: "timers_of ReconcileTimer s + count_list q EvReconcile = 0"
    using assms by (cases "reconcileScheduled s") (simp_all add: state_inv_def)
  have "daemon_ok ?s" "timer_inv (queued q) (timers_of ReconcileTimer s) m ?s"
    using assms by (simp_all add: state_inv_def del: One_nat_def)
  then have s: "state_inv m q ?s" using z by (simp add: state_inv_def c)
  show ?thesis
    unfolding reconcileFire_def
  proof (rule state_inv_keep [OF s])
    have "daemon_ok ?s" using s by (simp only: state_inv_def)
    then show "daemon_ok (reconcileKernelState os ?s)" by (simp only: daemon_mobs.obs_reconcileKernelState)
  qed simp_all
qed

lemma solicitTimerFire_daemon:
  assumes "daemon_ok s"
  shows "daemon_ok (solicitTimerFire os p gen s)"
proof -
  have arm: "daemon_ok (arm_rsTimer ms p gen x) = daemon_ok x" for ms x
  proof -
    have "daemon_ok (upd p (\<lambda>i. i\<lparr>rsTimer := t\<rparr>) y) = daemon_ok y" for t y
    proof -
      have r: "reg_view (upd p (\<lambda>i. i\<lparr>rsTimer := t\<rparr>) y) = reg_view y" by simp
      have "caches_ok (upd p (\<lambda>i. i\<lparr>rsTimer := t\<rparr>) y) = caches_ok y"
        "socket_table (upd p (\<lambda>i. i\<lparr>rsTimer := t\<rparr>) y) = socket_table y"
        by (simp_all add: socket_table_upd_same)
      then show ?thesis using reg_view_cong [OF r] by (simp only: daemon_ok_def sockets_ok_def)
    qed
    then show ?thesis by (simp add: arm_rsTimer_def AfterFunc_def)
  qed
  have sent: "daemon_ok (upd p (\<lambda>i. i\<lparr>raSent := raSent i + 1\<rparr>) x)" if "daemon_ok x" for x
    by (rule daemon_upd [OF that]) (simp_all add: cache_ok_def ll_addrs_def)
  show ?thesis
    using assms daemon_ll [OF assms, of p]
    by (auto simp: solicitTimerFire_def case_prod_beta Let_def arm sent split: option.split bool.split)
qed

lemma solicitTimerFire_flag: "reconcileScheduled (solicitTimerFire os p gen s) = reconcileScheduled s"
  by (auto simp: solicitTimerFire_def case_prod_beta Let_def split: option.split bool.split)

lemma solicitTimerFire_keep:
  assumes "state_inv m (EvSolicit p gen # q) s"
  shows "state_inv m q (solicitTimerFire os p gen s)"
proof -
  let ?n = "timers_of ReconcileTimer s"
  have d: "daemon_ok s" and i: "timer_inv (enqueue p gen (queued q)) ?n m s"
    using assms by (simp_all add: state_inv_def)
  have "0 < enqueue p gen (queued q) p gen" by (simp add: enqueue_def)
  from solicitTimerFire_inv [OF i this, of os] have j: "timer_inv (queued q) ?n m (solicitTimerFire os p gen s)" by simp
  show ?thesis
    using j timer_inv_counts [OF j] solicitTimerFire_daemon [OF d] solicitTimerFire_flag [of os p gen s] assms
    by (simp add: state_inv_def)
qed

text \<open>Running a closure never panics and keeps the invariant.\<close>

lemma run_event_keep:
  assumes "state_inv m (e # q) s"
  shows "\<exists>t. run_event os e s = Some t \<and> state_inv m q t"
proof -
  have sq: "state_inv m q s" if "\<forall>p g. e \<noteq> EvSolicit p g" "e \<noteq> EvReconcile"
    using assms state_inv_other [OF that] by simp
  have d: "daemon_ok s" using assms by (simp add: state_inv_def)
  show ?thesis
  proof (cases e)
    case EvReload
    then have "state_inv m q (Reload os s)"
      using sq timer_hinv.I_Reload d flag_hinv.I_Reload [OF refl d, of os]
      by (auto intro!: state_inv_keep [of m q s])
    then show ?thesis using EvReload by simp
  next
    case (EvLink u)
    then have "state_inv m q (handleLinkEvent os u s)"
      using sq timer_hinv.I_handleLinkEvent d flag_hinv.I_handleLinkEvent [OF refl d, of os u] handleLinkEvent_daemon
      by (auto intro!: state_inv_keep [of m q s])
    then show ?thesis using EvLink by simp
  next
    case (EvAddr u)
    then have "state_inv m q (handleAddrEvent os u s)"
      using sq timer_hinv.I_handleAddrEvent flag_hinv.I_handleAddrEvent [OF refl, of os u s] handleAddrEvent_daemon [OF d]
      by (auto intro!: state_inv_keep [of m q s])
    then show ?thesis using EvAddr by simp
  next
    case (EvNeigh u)
    then have "state_inv m q (handleNeighEvent os u s)" using sq d by (auto intro!: state_inv_keep [of m q s])
    then show ?thesis using EvNeigh by simp
  next
    case (EvRoute u)
    then show ?thesis using sq handleRouteEvent_keep by simp
  next
    case EvSweep
    then have "state_inv m q (sweepFailedAndOrphans os s)" using sq d by (auto intro!: state_inv_keep [of m q s])
    then show ?thesis using EvSweep by simp
  next
    case EvReconcile
    then show ?thesis using assms reconcileFire_keep by simp
  next
    case (EvSolicit p g)
    then show ?thesis using assms solicitTimerFire_keep by simp
  next
    case (EvDHCP ds src data)
    obtain t where t: "handleDHCPv6 os ds src data s = Some t" using handleDHCPv6_total by blast
    have "state_inv m q t"
      by (rule state_inv_keep [OF sq]) (use EvDHCP d in \<open>simp_all add: daemon_mobs.obs_handleDHCPv6 [OF t]
        timer_hinv.obs_handleDHCPv6 [OF t] reconcileScheduled_obs.obs_handleDHCPv6 [OF t]\<close>)
    then show ?thesis using EvDHCP t by simp
  next
    case (EvICMP rs data)
    obtain t where t: "handleICMPv6 os rs data s = Some t" using handleICMPv6_total by blast
    have "state_inv m q t"
      by (rule state_inv_keep [OF sq]) (use EvICMP d in \<open>simp_all add: daemon_mobs.obs_handleICMPv6 [OF t]
        timer_hinv.obs_handleICMPv6 [OF t] reconcileScheduled_obs.obs_handleICMPv6 [OF t]\<close>)
    then show ?thesis using EvICMP t by simp
  next
    case (EvNS ns mac data)
    obtain t where t: "handleSolicit os ns mac data s = Some t" by (simp add: handleSolicit_Some)
    have "state_inv m q t" by (rule handleSolicit_keep [OF t sq]) (use EvNS in simp_all)
    then show ?thesis using EvNS t by simp
  qed
qed

text \<open>Posting a closure that is neither of the two timer closures.\<close>

lemma state_inv_post:
  assumes "state_inv m q s" "\<forall>p g. e \<noteq> EvSolicit p g" "e \<noteq> EvReconcile"
  shows "state_inv m (q @ [e]) s"
  using assms state_inv_other [of e m q s] state_inv_perm [of "q @ [e]" "e # q" m s] by simp

lemma fire_daemon [simp]: "daemon_ok (fire t s) = daemon_ok s" "reconcileScheduled (fire t s) = reconcileScheduled s"
  by (simp_all add: fire_def timer_Stop_def)

lemma state_inv_readers: "state_inv m q (s\<lparr>readers := rs\<rparr>) = state_inv m q s"
proof -
  have "timers_of ReconcileTimer (s\<lparr>readers := rs\<rparr>) = timers_of ReconcileTimer s" by (simp add: timers_of_def)
  then show ?thesis by (simp add: state_inv_def timer_hinv.I_readers)
qed

lemma reader_round_packet:
  assumes "reader_round r d1 recv d2 = ReadPost e"
  shows "(\<forall>p g. e \<noteq> EvSolicit p g) \<and> e \<noteq> EvReconcile"
  using assms by (cases "(r, d1, recv, d2)" rule: reader_round.cases) (auto split: readRound.splits)

text \<open>A timer that expires hands its closure over.\<close>

lemma TimerExpires_keep:
  assumes "state_inv m q s" "(t, ms, k) \<in> set (timers s)"
  shows "state_inv (m - of_bool (k = SweepTick)) (posted_by k # q) (fire t s)" "k = SweepTick \<Longrightarrow> 0 < m"
proof -
  let ?n = "timers_of ReconcileTimer s"
  have I: "timer_inv (queued q) ?n m s" using assms(1) by (simp add: state_inv_def)
  show "k = SweepTick \<Longrightarrow> 0 < m" using fire_other(3) [OF I assms(2)] by simp
  show "state_inv (m - of_bool (k = SweepTick)) (posted_by k # q) (fire t s)"
  proof (cases k)
    case (SolicitTimer p g)
    from fire_solicit [OF I] assms(2) SolicitTimer have i: "timer_inv (enqueue p g (queued q)) ?n m (fire t s)" by simp
    show ?thesis using i timer_inv_counts [OF i] assms(1) SolicitTimer by (simp add: state_inv_def)
  next
    case SweepTick
    from fire_other(1) [OF I assms(2)] SweepTick have i: "timer_inv (queued q) ?n (m - 1) (fire t s)" by simp
    show ?thesis using i timer_inv_counts [OF i] assms(1) SweepTick by (simp add: state_inv_def)
  next
    case ReconcileTimer
    from fire_other [OF I assms(2)] ReconcileTimer have i: "timer_inv (queued q) (?n - 1) m (fire t s)" "0 < ?n" by simp_all
    then show ?thesis
      using timer_inv_counts [OF i(1)] assms(1) ReconcileTimer by (cases "reconcileScheduled s") (auto simp: state_inv_def)
  qed
qed

lemma after_post_keep:
  assumes "state_inv m q s"
  shows "state_inv (m + of_bool (e = EvSweep)) q (after_post e s)"
proof (cases "e = EvSweep")
  case True
  let ?n = "timers_of ReconcileTimer s" and ?t = "snd (AfterFunc mirrorSweepInterval SweepTick s)"
  have "timer_inv (queued q) ?n m s" using assms by (simp add: state_inv_def)
  from AfterFunc_inv [OF this, of SweepTick mirrorSweepInterval] have i: "timer_inv (queued q) ?n (m + 1) ?t" by simp
  have "state_inv (m + 1) q ?t"
    using i timer_inv_counts [OF i] assms by (simp add: state_inv_def) (simp add: AfterFunc_def)
  then show ?thesis using True by (simp add: after_post_def sweepTick_def)
qed (use assms in \<open>simp add: after_post_def\<close>)

lemma step_keep:
  assumes "step os w l w'" "world_inv w"
  shows "world_inv w'"
  using assms
proof (cases rule: step.cases)
  case (Run e q s)
  have q: "w_queue w = e # q" using eng.next_contents [OF Run(3)] .
  have "mset (w_blocked w @ e # q) = mset (e # w_blocked w @ q)" by simp
  note p = state_inv_perm [OF this]
  then show ?thesis
    using run_event_keep [of _ e "w_blocked w @ q" "w_st w" os] assms(2) Run q by (auto simp: world_inv_def)
next
  case (TimerExpires t ms k)
  have w: "state_inv (1 - count_list (w_blocked w) EvSweep) (w_blocked w @ w_queue w) (w_st w)"
    "count_list (w_blocked w) EvSweep \<le> 1" "length (w_queue w) \<le> engine_cap"
    using assms(2) by (simp_all add: world_inv_def)
  have "count_list (posted_by k # w_blocked w) EvSweep = count_list (w_blocked w) EvSweep + of_bool (k = SweepTick)"
    by (cases k) simp_all
  then show ?thesis
    using TimerExpires_keep [OF w(1) TimerExpires(3)] w(2, 3) TimerExpires(2) by (cases "k = SweepTick") (auto simp: world_inv_def)
next
  case (CallbackPosts bs e cs q)
  have w: "state_inv (1 - count_list (w_blocked w) EvSweep) (w_blocked w @ w_queue w) (w_st w)"
    "count_list (w_blocked w) EvSweep \<le> 1" "length (w_queue w) \<le> engine_cap"
    using assms(2) by (simp_all add: world_inv_def)
  have "mset (w_blocked w @ w_queue w) = mset ((bs @ cs) @ q)"
    using CallbackPosts(3) eng.post_contents [OF CallbackPosts(4)] by simp
  from w(1) [unfolded state_inv_perm [OF this]] have
    "state_inv (1 - count_list (w_blocked w) EvSweep + of_bool (e = EvSweep)) ((bs @ cs) @ q) (after_post e (w_st w))"
    by (rule after_post_keep)
  moreover have "1 - count_list (w_blocked w) EvSweep + of_bool (e = EvSweep) = 1 - count_list (bs @ cs) EvSweep"
    "count_list (bs @ cs) EvSweep \<le> 1"
    using w(2) CallbackPosts(3) by (auto split: if_splits)
  ultimately show ?thesis
    using CallbackPosts(2) eng.post_bound [OF w(3) CallbackPosts(4)] by (simp add: world_inv_def)
next
  case (NetlinkPosts e q)
  have "(\<forall>p g. e \<noteq> EvSolicit p g) \<and> e \<noteq> EvReconcile" using NetlinkPosts(3) by (cases e) simp_all
  with NetlinkPosts show ?thesis
    using assms(2) state_inv_post [of _ "w_blocked w @ w_queue w" "w_st w" e]
      eng.post_contents [OF NetlinkPosts(4)] eng.post_bound [OF _ NetlinkPosts(4)]
    by (auto simp: world_inv_def)
next
  case (SignalPosts sig q)
  then have p: "Post EvReload (w_queue w) = Some q" by (cases sig) simp_all
  then show ?thesis
    using SignalPosts(2) assms(2) state_inv_post [of _ "w_blocked w @ w_queue w" "w_st w" EvReload]
      eng.post_contents [OF p] eng.post_bound [OF _ p]
    by (auto simp: world_inv_def)
next
  case (ReaderPosts r d1 d2 recv e q)
  then show ?thesis
    using assms(2) reader_round_packet [OF ReaderPosts(5)] state_inv_post [of _ "w_blocked w @ w_queue w" "w_st w" e]
      eng.post_contents [OF ReaderPosts(6)] eng.post_bound [OF _ ReaderPosts(6)]
    by (auto simp: world_inv_def)
next
  case (ReaderExits r d1 d2 recv)
  then show ?thesis using assms(2) by (simp add: world_inv_def state_inv_readers)
qed

lemma reach_keep: "reach os w0 ls w \<Longrightarrow> world_inv w0 \<Longrightarrow> world_inv w"
  by (induction rule: reach.induct) (auto intro: step_keep)

section \<open>What no closure touches\<close>

text \<open>
  An invariant that every handler keeps and that depends neither on the timers nor on anything of an object
  but its sockets survives every step of the daemon.
\<close>

locale global_inv = handler_base +
  assumes I_timers: "I (s\<lparr>timers := ts, nextTimer := n\<rparr>) = I s"
    and I_flag: "I (s\<lparr>reconcileScheduled := b\<rparr>) = I s"
    and I_readers: "I (s\<lparr>readers := rs\<rparr>) = I s"
    and I_socks: "(\<And>i. socks_part (f i) = socks_part i) \<Longrightarrow> I (upd p f s) = I s"
begin

lemma I_timer_ops [simp]: "I (timer_Stop t s) = I s" "I (snd (AfterFunc ms k s)) = I s"
  using I_timers [where s = s and n = "nextTimer s"] by (simp_all add: timer_Stop_def AfterFunc_def I_timers)

lemma I_solicitTimerFire: "I s \<Longrightarrow> I (solicitTimerFire os p gen s)"
  by (auto simp: solicitTimerFire_def arm_rsTimer_def case_prod_beta Let_def I_socks socks_part_def
      split: option.split bool.split)

lemma I_scheduleReconcile: "I s \<Longrightarrow> I (scheduleReconcile s)"
  by (simp add: scheduleReconcile_def I_flag)

lemma I_handleSolicit: "handleSolicit os ns mac data s = Some t \<Longrightarrow> I s \<Longrightarrow> I t"
proof -
  have "I (fold (ping_on os a p) cs x) = I x" for a p cs x by (rule fold_frame) simp
  then show "handleSolicit os ns mac data s = Some t \<Longrightarrow> I s \<Longrightarrow> I t"
    by (auto simp: handleSolicit_Some Let_def split: option.splits if_splits)
qed

lemma I_run_event:
  assumes "run_event os e s = Some t" "I s" "daemon_ok s"
  shows "I t"
proof (cases e)
  case (EvRoute u)
  then show ?thesis using assms handleRouteEvent_state [of os u s] by (auto simp: I_scheduleReconcile)
qed (use assms I_Reload [of s] I_handleLinkEvent [of s] I_handleAddrEvent [of s] I_solicitTimerFire I_handleSolicit
    in \<open>auto simp: reconcileFire_def I_flag obs_handleDHCPv6 obs_handleICMPv6\<close>)

lemma I_step: "step os w l w' \<Longrightarrow> world_inv w \<Longrightarrow> I (w_st w) \<Longrightarrow> I (w_st w')"
  by (erule step.cases)
    (auto simp: fire_def after_post_def sweepTick_def I_readers world_inv_def state_inv_def intro: I_run_event)

lemma I_reach: "reach os w0 ls w \<Longrightarrow> world_inv w0 \<Longrightarrow> I (w_st w0) \<Longrightarrow> I (w_st w)"
proof (induction rule: reach.induct)
  case (reach_step w0 ls w l w')
  then show ?case using I_step reach_keep by blast
qed simp

end

lemmas timer_ops = bump_def arm_rsTimer_def AfterFunc_def new_object_def stop_rsTimer_def timer_Stop_def upd_def

interpretation level_hinv: handler_inv "\<lambda>s. cfg_LogLevelCmdline s \<and> logLevel (lg s) = k" for k
  by unfold_locales (auto simp: timer_ops split: option.split)

interpretation level_ginv: global_inv "\<lambda>s. cfg_LogLevelCmdline s \<and> logLevel (lg s) = k" os for k os
  by unfold_locales (auto simp: upd_def)

interpretation file_hinv: handler_inv "\<lambda>s. cfg_ConfigFile s = c" for c
  by unfold_locales (auto simp: timer_ops split: option.split)

interpretation file_ginv: global_inv "\<lambda>s. cfg_ConfigFile s = c" os for c os
  by unfold_locales (auto simp: upd_def)

interpretation fd_ginv: global_inv "fd_inv os" os for os
proof unfold_locales
  show "fd_inv os (upd p f s) = fd_inv os s" if "\<And>i. socks_part (f i) = socks_part i" for p f s
    using that by (simp add: fd_inv_def)
qed (simp_all add: fd_inv_def fd_with_cong [of "s\<lparr>timers := ts, nextTimer := n\<rparr>" s for s ts n]
    fd_with_cong [of "s\<lparr>readers := rs\<rparr>" s for s rs] fd_with_cong [of "s\<lparr>reconcileScheduled := b\<rparr>" s for s b])

section \<open>The count of solicitations\<close>

text \<open>
  A closure other than the interface's own solicitation timer leaves its count alone, unless it starts its
  Router Discovery service again.
\<close>

lemma run_event_count:
  assumes "run_event os e s = Some t" "daemon_ok s" "p < nextPtr s" "\<forall>g. e \<noteq> EvSolicit p g"
  shows "raSent (heap t p) = raSent (heap s p) \<or> (raSent (heap t p) = 0 \<and> restarted p (nextChan s) t)"
proof -
  let ?I = "count_inv p (raSent (heap s p)) (nextChan s)"
  have I: "?I s" using assms(3) by (simp add: count_inv_def)
  have flag: "?I (x\<lparr>reconcileScheduled := b\<rparr>) = ?I x" for x b by (simp add: count_inv_def restarted_def)
  have "?I t"
  proof (cases e)
    case EvReload
    then show ?thesis using assms(1) count_hbase.I_Reload [OF I assms(2), of os] by simp
  next
    case (EvLink u)
    then show ?thesis using assms(1) count_hbase.I_handleLinkEvent [OF I assms(2), of os u] by simp
  next
    case (EvAddr u)
    then show ?thesis using assms(1) count_hbase.I_handleAddrEvent [OF I, of os u] by simp
  next
    case (EvRoute u)
    then show ?thesis
      using assms(1) handleRouteEvent_state [of os u s] I by (auto simp: scheduleReconcile_def flag)
  next
    case EvReconcile
    then show ?thesis using assms(1) I by (auto simp: reconcileFire_def flag)
  next
    case (EvSolicit q g)
    then have "q \<noteq> p" using assms(4) by blast
    then have "?I (upd q f x) = ?I x" for f x by (simp add: count_inv_def restarted_def)
    then show ?thesis
      using EvSolicit assms(1) I
      by (auto simp: solicitTimerFire_def case_prod_beta Let_def split: option.split bool.split)
  next
    case (EvDHCP ds src data)
    then show ?thesis using assms(1) I by (simp add: count_mobs.obs_handleDHCPv6)
  next
    case (EvICMP rs data)
    then show ?thesis using assms(1) I by (simp add: count_mobs.obs_handleICMPv6)
  next
    case (EvNS ns mac data)
    have "?I (fold (ping_on os a q) cs x) = ?I x" for a q cs x by (rule fold_frame) simp
    then show ?thesis
      using EvNS assms(1) I by (auto simp: handleSolicit_Some Let_def split: option.splits if_splits)
  qed (use assms(1) I in auto)
  then show ?thesis by (simp add: count_inv_def)
qed

section \<open>Packets of old sockets\<close>

text \<open>
  C18. A packet that was read from a socket before the socket was closed, and still waits in the engine's channel, is
  dropped and leaves nothing behind, not even a query, even if the interface has opened a new socket since and whatever the packet holds:
  the handler of each of the three services returns exactly the state it was given, if the done channel of the
  packet's socket is closed. (The hypothesis is the invariant \<open>daemon_safe\<close> shows of every reachable state.)
\<close>

theorem stale_packets_ignored:
  assumes "daemon_ok s"
  shows "(rs_done rs \<in> set (closedChans s) \<longrightarrow> handleICMPv6 os rs data s = Some s) \<and>
    (ds_done ds \<in> set (closedChans s) \<longrightarrow> handleDHCPv6 os ds src data s = Some s) \<and>
    (ns_done ns \<in> set (closedChans s) \<longrightarrow> handleSolicit os ns mac data s = Some s)"
proof -
  have a: "a_inv (socket_table s)" using assms by (simp add: daemon_ok_def sockets_ok_def)
  have live: "c \<notin> set (closedChans s)" if "sock_of k (heap s p) = Some (c, x)" for c x p k
    using a_invD(3) [OF a, of "(p, k)" "(c, x)"] that by (simp add: socket_table_def)
  have "router (heap s p) \<noteq> Some rs" if "rs_done rs \<in> set (closedChans s)" for p
    using live [of RouterSvc p] that by auto
  moreover have "dhcp (heap s p) \<noteq> Some ds" if "ds_done ds \<in> set (closedChans s)" for p
    using live [of DhcpSvc p] that by auto
  moreover have "ndp (heap s p) \<noteq> Some ns" if "ns_done ns \<in> set (closedChans s)" for p
    using live [of NdpSvc p] that by auto
  ultimately show ?thesis
    by (simp add: handleICMPv6_def handleDHCPv6_def handleSolicit_def Let_def)
qed

text \<open>A message of a client that waits while the services of its interface are shut down.\<close>

theorem stale_packets_ignored_witness:
  "handleDHCPv6 demo_os \<lparr>ds_fd = 8, ds_iface = 1, ds_done = 4\<rparr> demo_client demo_solicit (disableServices demo_os 1 demo_st) =
     Some (disableServices demo_os 1 demo_st)"
proof -
  have "dhcp demo_lan = Some \<lparr>ds_fd = 8, ds_iface = 1, ds_done = 4\<rparr>" "router demo_lan = Some \<lparr>rs_fd = 7, rs_iface = 1, rs_done = 3\<rparr>"
    "ndp demo_lan = Some \<lparr>ns_fd = 9, ns_pingFd = 10, ns_iface = 1, ns_done = 5\<rparr>" "rsTimer demo_lan = None"
    by (simp_all add: demo_defs)
  then have "4 \<in> set (closedChans (disableServices demo_os 1 demo_st))"
    by (simp add: disableServices_def routerSetup_def dhcpv6Setup_def ndpSetup_def Let_def router_teardown_def
        dhcp_teardown_def ndp_teardown_def stop_rsTimer_def close_chan_def timer_Stop_def)
  then show ?thesis
    using stale_packets_ignored [OF daemon_disable [OF demo_daemon],
        where ds = "\<lparr>ds_fd = 8, ds_iface = 1, ds_done = 4\<rparr>"] by simp
qed

end
