(* ===== verification/Command.thy ===== *)
theory Command
  imports Engine
begin

text \<open>
  \<^verbatim>\<open>cmd/ipv6-relay/main.go\<close>: the command line, as the packages \<^verbatim>\<open>flag\<close> and \<^verbatim>\<open>strconv\<close> read it, the checks before the
  daemon starts and the exit statuses, \<^verbatim>\<open>StartNetlinkMonitor\<close> of \<^verbatim>\<open>netlink.go\<close>, and the state in which the
  engine takes over. What the usage text and the other lines on stderr say is not modelled.
\<close>

section \<open>Reading numbers and truth values\<close>

text \<open>\<^verbatim>\<open>strconv.ParseBool\<close>.\<close>

definition ParseBool :: "string \<Rightarrow> bool option" where
  "ParseBool s =
     (if s \<in> {''1'', ''t'', ''T'', ''TRUE'', ''true'', ''True''} then Some True
      else if s \<in> {''0'', ''f'', ''F'', ''FALSE'', ''false'', ''False''} then Some False
      else None)"

text \<open>
  \<^verbatim>\<open>strconv.ParseInt(s, 0, 64)\<close>: the base comes from the prefix, underscores may separate digits, a value
  out of range is an error. \<^verbatim>\<open>lower\<close> is the bit operation of the library, not a case conversion.
\<close>

definition ascii_lower :: "char \<Rightarrow> int" where
  "ascii_lower c = of_char c OR 0x20"

definition digit_value :: "char \<Rightarrow> int option" where
  "digit_value c =
     (let n = of_char c; l = ascii_lower c
      in if 48 \<le> n \<and> n \<le> 57 then Some (n - 48)
         else if 97 \<le> l \<and> l \<le> 122 then Some (l - 97 + 10)
         else None)"

fun parse_digits :: "int \<Rightarrow> string \<Rightarrow> int \<Rightarrow> int option" where
  "parse_digits base [] n = Some n"
| "parse_digits base (c # cs) n =
     (if c = CHR ''_'' then parse_digits base cs n
      else case digit_value c of
          None \<Rightarrow> None
        | Some d \<Rightarrow>
            if base \<le> d \<or> 2 ^ 64 \<le> n * base + d then None else parse_digits base cs (n * base + d))"

definition base_of :: "string \<Rightarrow> int \<times> string" where
  "base_of s =
     (if s = [] \<or> hd s \<noteq> CHR ''0'' then (10, s)
      else if 3 \<le> length s \<and> ascii_lower (s ! 1) = 98 then (2, drop 2 s)
      else if 3 \<le> length s \<and> ascii_lower (s ! 1) = 111 then (8, drop 2 s)
      else if 3 \<le> length s \<and> ascii_lower (s ! 1) = 120 then (16, drop 2 s)
      else (8, drop 1 s))"

text \<open>
  \<^verbatim>\<open>underscoreOK\<close>: every underscore stands between a digit or a base prefix and a digit. The argument before
  the string is the kind of the character before it: \<open>0\<close> a digit, \<open>1\<close> an underscore, \<open>2\<close> another one.
\<close>

fun underscores_between :: "bool \<Rightarrow> nat \<Rightarrow> string \<Rightarrow> bool" where
  "underscores_between hex k [] = (k \<noteq> 1)"
| "underscores_between hex k (c # cs) =
     (if 48 \<le> (of_char c :: int) \<and> (of_char c :: int) \<le> 57 \<or> hex \<and> 97 \<le> ascii_lower c \<and> ascii_lower c \<le> 102
      then underscores_between hex 0 cs
      else if c = CHR ''_'' then k = 0 \<and> underscores_between hex 1 cs
      else k \<noteq> 1 \<and> underscores_between hex 2 cs)"

definition unsigned_part :: "string \<Rightarrow> string" where
  "unsigned_part s = (if s \<noteq> [] \<and> hd s \<in> {CHR ''-'', CHR ''+''} then tl s else s)"

definition underscoreOK :: "string \<Rightarrow> bool" where
  "underscoreOK s =
     (let t = unsigned_part s
      in if 2 \<le> length t \<and> hd t = CHR ''0'' \<and> ascii_lower (t ! 1) \<in> {98, 111, 120}
         then underscores_between (ascii_lower (t ! 1) = 120) 0 (drop 2 t)
         else underscores_between False 2 t)"

definition ParseUint :: "string \<Rightarrow> int option" where
  "ParseUint s =
     (if s = [] then None
      else case base_of s of (base, t) \<Rightarrow>
        (case parse_digits base t 0 of
           None \<Rightarrow> None
         | Some n \<Rightarrow> if CHR ''_'' \<in> set t \<and> \<not> underscoreOK s then None else Some n))"

definition ParseInt :: "string \<Rightarrow> int option" where
  "ParseInt s =
     (if s = [] then None
      else case ParseUint (unsigned_part s) of
          None \<Rightarrow> None
        | Some n \<Rightarrow>
            if hd s = CHR ''-'' then (if 2 ^ 63 < n then None else Some (- n))
            else if 2 ^ 63 \<le> n then None else Some n)"

section \<open>The command line\<close>

record cli =
  cl_config :: string
  cl_level :: "int option"
  cl_foreground :: bool
  cl_help :: bool

definition cli_init :: cli where
  "cli_init = \<lparr>cl_config = '''', cl_level = None, cl_foreground = False, cl_help = False\<rparr>"

text \<open>
  One argument, as \<^verbatim>\<open>flag\<close> looks at it: the end of the flags, bad syntax, or a flag with the value after
  its first equals sign, if it has one.
\<close>

datatype token = EndOfFlags | BadSyntax | Flag string "string option"

definition flag_token :: "string \<Rightarrow> token" where
  "flag_token s =
     (if length s < 2 \<or> hd s \<noteq> CHR ''-'' then EndOfFlags
      else if s = ''--'' then EndOfFlags
      else let name = (if s ! 1 = CHR ''-'' then drop 2 s else drop 1 s)
           in if name = [] \<or> hd name = CHR ''-'' \<or> hd name = CHR ''='' then BadSyntax
              else let k = hd name # takeWhile (\<lambda>c. c \<noteq> CHR ''='') (tl name);
                       r = drop (length k) name
                   in Flag k (if r = [] then None else Some (tl r)))"

definition set_bool :: "string \<Rightarrow> bool \<Rightarrow> cli \<Rightarrow> cli" where
  "set_bool name b cl = (if name = ''f'' then cl\<lparr>cl_foreground := b\<rparr> else cl\<lparr>cl_help := b\<rparr>)"

definition set_value :: "string \<Rightarrow> string \<Rightarrow> cli \<Rightarrow> cli option" where
  "set_value name v cl =
     (if name = ''c'' then Some (cl\<lparr>cl_config := v\<rparr>)
      else map_option (\<lambda>n. cl\<lparr>cl_level := Some n\<rparr>) (ParseInt v))"

text \<open>\<open>None\<close>: the usage function ran, which exits with status 0.\<close>

fun flag_Parse :: "string list \<Rightarrow> cli \<Rightarrow> cli option" where
  "flag_Parse [] cl = Some cl"
| "flag_Parse (s # args) cl =
     (case flag_token s of
        EndOfFlags \<Rightarrow> Some cl
      | BadSyntax \<Rightarrow> None
      | Flag name v \<Rightarrow>
          if name = ''f'' \<or> name = ''h''
          then (case (case v of None \<Rightarrow> Some True | Some b \<Rightarrow> ParseBool b) of
                  None \<Rightarrow> None
                | Some b \<Rightarrow> flag_Parse args (set_bool name b cl))
          else if name = ''c'' \<or> name = ''l''
          then (case v of
                  Some x \<Rightarrow> (case set_value name x cl of None \<Rightarrow> None | Some cl \<Rightarrow> flag_Parse args cl)
                | None \<Rightarrow>
                    (case args of
                       [] \<Rightarrow> None
                     | x # args' \<Rightarrow> (case set_value name x cl of None \<Rightarrow> None | Some cl \<Rightarrow> flag_Parse args' cl)))
          else None)"

section \<open>Starting up\<close>

text \<open>The outcome of the calls of \<^verbatim>\<open>main\<close> into the standard library and the netlink library.\<close>

record env =
  en_root :: bool
  en_syslog :: "errno option"
  en_ipv6 :: "errno + int"
  en_link :: "errno option"
  en_addr :: "errno option"
  en_neigh :: "errno option"
  en_route :: "errno option"

definition ipv6Enabled :: "os \<Rightarrow> env \<Rightarrow> st \<Rightarrow> bool \<times> st" where
  "ipv6Enabled os env s =
     (case en_ipv6 env of
        Inl _ \<Rightarrow> (False, s)
      | Inr fd \<Rightarrow> (True, snd (sys os (CloseFd fd) (s\<lparr>trace := trace s @ [Opened fd]\<rparr>))))"

definition StartNetlinkMonitor :: "env \<Rightarrow> st \<Rightarrow> errno option \<times> st" where
  "StartNetlinkMonitor env s =
     (if en_link env \<noteq> None then (en_link env, s)
      else if en_addr env \<noteq> None then (en_addr env, s)
      else if en_neigh env \<noteq> None then (en_neigh env, s)
      else if en_route env \<noteq> None then (en_route env, s)
      else (None, startMirrorSweep s))"

definition main_flags :: "env \<Rightarrow> cli \<Rightarrow> st" where
  "main_flags env cl =
     (let s = st_init;
          s = (case cl_level cl of
                 None \<Rightarrow> s
               | Some l \<Rightarrow> s\<lparr>lg := SetLogLevel l (lg s), cfg_LogLevelCmdline := True\<rparr>);
          s = s\<lparr>lg := snd (SetLogSyslog (\<not> cl_foreground cl) (en_syslog env) (lg s))\<rparr>
      in if en_root env then s
         else Errorf ''Not running as root - relying on CAP_NET_RAW/CAP_NET_ADMIN/CAP_NET_BIND_SERVICE'' s)"

text \<open>
  The process ends with a status, with what was logged; or the engine runs in a state with the first reload
  posted. \<open>Blocks\<close> is a send on a full channel before there is a receiver.
\<close>

datatype outcome = Exits int st | Starts world | Blocks st

definition main :: "os \<Rightarrow> env \<Rightarrow> string list \<Rightarrow> outcome" where
  "main os env args =
     (if args = [] then Exits 1 st_init
      else case flag_Parse args cli_init of
          None \<Rightarrow> Exits 0 st_init
        | Some cl \<Rightarrow>
            if cl_help cl then Exits 0 st_init
            else let s = main_flags env cl
                 in if cl_config cl = ''''
                    then Exits 2 (Errorf ''No configuration file specified. Use -c <file>'' s)
                    else case ipv6Enabled os env (s\<lparr>cfg_ConfigFile := cl_config cl\<rparr>) of (ok, s) \<Rightarrow>
                      if \<not> ok then Exits 4 (Errorf ''IPv6 is not enabled on this system'' s)
                      else case StartNetlinkMonitor env s of (e, s) \<Rightarrow>
                        if e \<noteq> None then Exits 4 (Errorf ''Unable to start netlink monitor: %v'' s)
                        else case Post EvReload NewEngine of
                            None \<Rightarrow> Blocks s
                          | Some q \<Rightarrow> Starts \<lparr>w_st = s, w_blocked = [], w_queue = q\<rparr>)"

section \<open>The state the engine starts in\<close>

lemma main_flags_state:
  "daemon_ok (main_flags env cl)" "timers (main_flags env cl) = []" "reconcileScheduled (main_flags env cl) = False"
  "heap (main_flags env cl) = (\<lambda>_. zeroInterface)" "trace (main_flags env cl) = []"
  "cfg_LogLevelCmdline (main_flags env cl) = (cl_level cl \<noteq> None)"
  "logLevel (lg (main_flags env cl)) = (case cl_level cl of None \<Rightarrow> LogWarning | Some n \<Rightarrow> n AND 0x7)"
  "interfaces (main_flags env cl) = []"
proof -
  have i: "daemon_ok (st_init\<lparr>cfg_LogLevelCmdline := b\<rparr>)" for b
  proof -
    have "socks (socket_table (st_init\<lparr>cfg_LogLevelCmdline := b\<rparr>)) = (\<lambda>_. None)"
      by (auto simp: socket_table_def st_init_def demo_sock_of)
    then show ?thesis
      by (simp add: daemon_ok_def registry_ok_def sockets_ok_def a_inv_def caches_ok_def cache_ok_def)
        (simp add: st_init_def socket_table_def zeroInterface_def)
  qed
  have s: "st_init\<lparr>cfg_LogLevelCmdline := False\<rparr> = st_init" by (simp add: st_init_def)
  have c: "(s\<lparr>lg := l, cfg_LogLevelCmdline := b\<rparr>) = (s\<lparr>cfg_LogLevelCmdline := b\<rparr>)\<lparr>lg := l\<rparr>" for s :: st and l b by simp
  show "daemon_ok (main_flags env cl)"
    using i [of True] i [of False, unfolded s]
    by (auto simp: main_flags_def Let_def c daemon_lg split: option.split)
  show "timers (main_flags env cl) = []" "reconcileScheduled (main_flags env cl) = False"
    "heap (main_flags env cl) = (\<lambda>_. zeroInterface)" "trace (main_flags env cl) = []"
    "cfg_LogLevelCmdline (main_flags env cl) = (cl_level cl \<noteq> None)" "interfaces (main_flags env cl) = []"
    by (simp_all add: main_flags_def Let_def st_init_def split: option.split)
  show "logLevel (lg (main_flags env cl)) = (case cl_level cl of None \<Rightarrow> LogWarning | Some n \<Rightarrow> n AND 0x7)"
    by (simp add: main_flags_def Let_def st_init_def log_init_def SetLogSyslog_def SetLogLevel_def Errorf_def logs_def
        split: option.split)
qed

lemma main_StartsE:
  assumes "main os env args = Starts w"
  obtains cl fd where "args \<noteq> []" "flag_Parse args cli_init = Some cl" "\<not> cl_help cl" "cl_config cl \<noteq> ''''"
    "en_ipv6 env = Inr fd" "en_link env = None" "en_addr env = None" "en_neigh env = None" "en_route env = None"
    "w_queue w = [EvReload]" "w_blocked w = []"
    "w_st w = startMirrorSweep (snd (sys os (CloseFd fd) (main_flags env cl\<lparr>cfg_ConfigFile := cl_config cl, trace := [Opened fd]\<rparr>)))"
  using assms
  by (auto simp: main_def Let_def case_prod_beta ipv6Enabled_def StartNetlinkMonitor_def Post_def NewEngine_def
      main_flags_state split: if_splits option.splits sum.splits)

lemma main_world:
  assumes "main os env args = Starts w"
  shows "world_inv w"
proof -
  from assms obtain cl fd where q: "w_queue w = [EvReload]" "w_blocked w = []" and
    w: "w_st w = startMirrorSweep (snd (sys os (CloseFd fd) (main_flags env cl\<lparr>cfg_ConfigFile := cl_config cl, trace := [Opened fd]\<rparr>)))"
    by (rule main_StartsE)
  define s where "s = snd (sys os (CloseFd fd) (main_flags env cl\<lparr>cfg_ConfigFile := cl_config cl, trace := [Opened fd]\<rparr>))"
  have cf: "daemon_ok (x\<lparr>cfg_ConfigFile := c, trace := t\<rparr>) = daemon_ok x" for x c t
    by (simp add: daemon_ok_def registry_ok_def sockets_ok_def caches_ok_def registered_def socket_table_def)
  have d: "daemon_ok s" and f: "timers s = []" "reconcileScheduled s = False" "heap s = (\<lambda>_. zeroInterface)"
    by (simp_all add: s_def main_flags_state cf)
  have "timer_inv (queued q) 0 0 s" if "queued q = (\<lambda>_ _. 0)" for q
    using that f
    by (simp add: timer_inv_def timers_ok_def solicit_ok_def pending_def timers_of_def zeroInterface_def)
  moreover have "queued [EvReload] = (\<lambda>_ _. 0)" by (simp add: fun_eq_iff) (simp add: queued_def)
  ultimately have i: "timer_inv (queued [EvReload]) 0 1 (startMirrorSweep s)"
    using AfterFunc_inv [of "queued [EvReload]" 0 0 s SweepTick mirrorSweepInterval] by (simp add: startMirrorSweep_def)
  have "daemon_ok (startMirrorSweep s)" "\<not> reconcileScheduled (startMirrorSweep s)"
    using d f by (simp_all add: startMirrorSweep_def AfterFunc_def)
  with i timer_inv_counts [OF i] w q show "world_inv w"
    by (simp add: world_inv_def state_inv_def s_def)
qed

section \<open>Printing a command line\<close>

definition digit_char :: "nat \<Rightarrow> char" where
  "digit_char d = char_of (48 + d)"

fun decimal :: "nat \<Rightarrow> string" where
  "decimal n = (if n < 10 then [digit_char n] else decimal (n div 10) @ [digit_char (n mod 10)])"

declare decimal.simps [simp del]

definition show_int :: "int \<Rightarrow> string" where
  "show_int i = (if i < 0 then CHR ''-'' # decimal (nat (- i)) else decimal (nat i))"

definition print_cli :: "cli \<Rightarrow> string list" where
  "print_cli cl = [''-c'', cl_config cl] @ (case cl_level cl of None \<Rightarrow> [] | Some n \<Rightarrow> [''-l'', show_int n]) @
     (if cl_foreground cl then [''-f''] else []) @ (if cl_help cl then [''-h''] else [])"

lemma code_digit: "d < 10 \<Longrightarrow> (of_char (digit_char d) :: nat) = 48 + d"
  by (simp add: digit_char_def)

lemma digit_chars: "digit_char 0 = CHR ''0''" "digit_char 1 = CHR ''1''" "digit_char 5 = CHR ''5''"
  by code_simp+

lemma digit_value_digit:
  assumes "d < 10"
  shows "digit_value (digit_char d) = Some (int d)"
proof -
  have "(of_char (digit_char d) :: int) = 48 + int d"
    using code_digit [OF assms] by (metis of_nat_add of_nat_numeral of_nat_of_char)
  with assms show ?thesis by (simp add: digit_value_def)
qed

lemma digit_char_neq: "d < 10 \<Longrightarrow> of_char c \<notin> {48::nat..57} \<Longrightarrow> digit_char d \<noteq> c"
  using code_digit [of d] by auto

lemma decimal_digits: "set (decimal n) \<subseteq> digit_char ` {..<10}"
proof (induction n rule: decimal.induct)
  case (1 n)
  then show ?case by (subst decimal.simps) auto
qed

lemma decimal_not_Nil [simp]: "decimal n \<noteq> []"
  by (subst decimal.simps) simp

lemma hd_decimal: "hd (decimal n) = CHR ''0'' \<longleftrightarrow> n = 0"
proof (induction n rule: decimal.induct)
  case (1 n)
  have "digit_char n = CHR ''0'' \<longleftrightarrow> n = 0" if "n < 10"
    using code_digit [OF that] digit_chars(1) by fastforce
  moreover have "n div 10 \<noteq> 0" if "\<not> n < 10" using that by (simp add: div_eq_0_iff)
  ultimately show ?case using 1 by (subst decimal.simps) (auto simp: hd_append)
qed

lemma parse_digits_append: "parse_digits b (xs @ ys) n = Option.bind (parse_digits b xs n) (parse_digits b ys)"
  by (induction xs arbitrary: n) (auto split: option.split)

lemma parse_decimal: "n < 2 ^ 64 \<Longrightarrow> parse_digits 10 (decimal n) 0 = Some (int n)"
proof (induction n rule: decimal.induct)
  case (1 n)
  have d: "parse_digits 10 [digit_char d] m = Some (m * 10 + int d)" if "d < 10" "m * 10 + int d < 2 ^ 64" for d m
    using that digit_char_neq [OF that(1), of "CHR ''_''"] digit_value_digit [OF that(1)] by simp
  show ?case
  proof (cases "n < 10")
    case True
    then show ?thesis using d [of n 0] by (subst decimal.simps) simp
  next
    case False
    have "int (n div 10) * 10 + int (n mod 10) = int n" by presburger
    then have "parse_digits 10 [digit_char (n mod 10)] (int (n div 10)) = Some (int n)"
      using d [of "n mod 10" "int (n div 10)"] "1.prems" by simp
    then show ?thesis using False 1 by (subst decimal.simps) (simp add: parse_digits_append)
  qed
qed

lemma ParseUint_decimal:
  assumes "n < 2 ^ 64"
  shows "ParseUint (decimal n) = Some (int n)"
proof -
  have u: "CHR ''_'' \<notin> set (decimal n)"
    using decimal_digits [of n] digit_char_neq [of _ "CHR ''_''"] by fastforce
  show ?thesis
  proof (cases "n = 0")
    case True
    then show ?thesis by (simp add: ParseUint_def base_of_def decimal.simps digit_chars)
  next
    case False
    then have "base_of (decimal n) = (10, decimal n)" using hd_decimal by (simp add: base_of_def)
    then show ?thesis using u parse_decimal [OF assms] by (simp add: ParseUint_def)
  qed
qed

lemma decimal_unsigned: "hd (decimal n) \<notin> {CHR ''-'', CHR ''+''}"
  using decimal_digits [of n] digit_char_neq [of _ "CHR ''-''"] digit_char_neq [of _ "CHR ''+''"] hd_in_set [OF decimal_not_Nil, of n]
  by fastforce

lemma ParseInt_show:
  assumes "- (2 ^ 63) \<le> i" "i < 2 ^ 63"
  shows "ParseInt (show_int i) = Some i"
proof (cases "i < 0")
  case True
  then have "ParseUint (decimal (nat (- i))) = Some (- i)" using assms ParseUint_decimal [of "nat (- i)"] by simp
  then show ?thesis using True assms by (simp add: ParseInt_def show_int_def unsigned_part_def)
next
  case False
  then have "ParseUint (decimal (nat i)) = Some i" using assms ParseUint_decimal [of "nat i"] by simp
  then show ?thesis
    using False assms decimal_unsigned [of "nat i"] by (simp add: ParseInt_def show_int_def unsigned_part_def)
qed

text \<open>
  Every command line is understood as it was meant: the arguments printed for a configuration file (any
  name, even one that begins with a dash), a log level in the range of Go's int, and the two switches parse
  back to exactly those settings.
\<close>

theorem flag_Parse_roundtrip:
  assumes "\<forall>n \<in> set_option (cl_level cl). - (2 ^ 63) \<le> n \<and> n < 2 ^ 63"
  shows "flag_Parse (print_cli cl) cli_init = Some cl"
proof -
  have t: "flag_token ''-c'' = Flag ''c'' None" "flag_token ''-l'' = Flag ''l'' None" "flag_token ''-f'' = Flag ''f'' None"
    "flag_token ''-h'' = Flag ''h'' None"
    by (simp_all add: flag_token_def)
  have "ParseInt (show_int n) = Some n" if "cl_level cl = Some n" for n using that assms ParseInt_show by simp
  then show ?thesis
    by (cases "cl_level cl"; cases cl) (auto simp: print_cli_def t set_value_def set_bool_def cli_init_def)
qed

text \<open>A level below zero, which \<^verbatim>\<open>SetLogLevel\<close> cuts to three bits.\<close>

theorem flag_Parse_roundtrip_witness:
  "flag_Parse [''-c'', ''-x'', ''-l'', ''-15'', ''-f''] cli_init =
     Some \<lparr>cl_config = ''-x'', cl_level = Some (- 15), cl_foreground = True, cl_help = False\<rparr>"
  using flag_Parse_roundtrip [of "\<lparr>cl_config = ''-x'', cl_level = Some (- 15), cl_foreground = True, cl_help = False\<rparr>"]
  by (simp add: print_cli_def show_int_def decimal.simps digit_chars [simplified])

text \<open>
  C40. What \<^verbatim>\<open>main\<close> does on every command line. It never blocks. It exits with 1 exactly without arguments, with
  0 exactly if the usage was asked for or the flags are malformed, with 2 exactly if no configuration file is
  named, and with 4 otherwise when IPv6 is missing or a subscription fails; no interface was opened then and
  no timer armed. Otherwise the engine starts with the first reload posted and nothing else, the sweep armed,
  the probing socket closed again, the configuration file remembered, and the log level of the command line,
  cut to three bits, or the default.
\<close>

theorem main_correct:
  "case main os env args of
     Blocks s \<Rightarrow> False
   | Exits c s \<Rightarrow>
       c \<in> {0, 1, 2, 4} \<and> interfaces s = [] \<and> timers s = [] \<and>
       (c = 1 \<longleftrightarrow> args = []) \<and>
       (c = 0 \<longleftrightarrow> args \<noteq> [] \<and> (case flag_Parse args cli_init of None \<Rightarrow> True | Some cl \<Rightarrow> cl_help cl)) \<and>
       (c = 2 \<longleftrightarrow> args \<noteq> [] \<and>
          (case flag_Parse args cli_init of None \<Rightarrow> False | Some cl \<Rightarrow> \<not> cl_help cl \<and> cl_config cl = '''')) \<and>
       (c = 4 \<longleftrightarrow> args \<noteq> [] \<and>
          (case flag_Parse args cli_init of None \<Rightarrow> False | Some cl \<Rightarrow> \<not> cl_help cl \<and> cl_config cl \<noteq> '''') \<and>
          \<not> ((\<exists>fd. en_ipv6 env = Inr fd) \<and>
             [en_link env, en_addr env, en_neigh env, en_route env] = [None, None, None, None]))
   | Starts w \<Rightarrow>
       w_queue w = [EvReload] \<and> w_blocked w = [] \<and> map (snd \<circ> snd) (timers (w_st w)) = [SweepTick] \<and> interfaces (w_st w) = [] \<and>
       (\<exists>cl fd r. flag_Parse args cli_init = Some cl \<and> en_ipv6 env = Inr fd \<and>
          trace (w_st w) = [Opened fd, Did (CloseFd fd) r] \<and>
          cfg_ConfigFile (w_st w) = cl_config cl \<and> cl_config cl \<noteq> '''' \<and>
          logLevel (lg (w_st w)) = (case cl_level cl of None \<Rightarrow> LogWarning | Some n \<Rightarrow> n AND 0x7))"
proof (cases "main os env args")
  case (Starts w)
  then show ?thesis
    by (auto elim!: main_StartsE simp: startMirrorSweep_def AfterFunc_def main_flags_state sys_def) (simp add: tick_def main_flags_state)
next
  case (Exits c s)
  have "interfaces st_init = []" "timers st_init = []" by (simp_all add: st_init_def)
  with Exits show ?thesis
    by (auto simp: main_def Let_def case_prod_beta ipv6Enabled_def StartNetlinkMonitor_def main_flags_state
        split: if_splits option.splits sum.splits)
next
  case (Blocks s)
  then show ?thesis by (auto simp: main_def Let_def case_prod_beta Post_def NewEngine_def split: if_splits option.splits)
qed

end
