(* ===== verification/Spec2Isabelle.thy ===== *)
theory Spec2Isabelle
  imports Command
begin

text \<open>
  A verification library for \<^verbatim>\<open>ipv6-relay\<close>, a daemon that relays DHCPv6, Router Discovery and Neighbour Discovery
  between an upstream (master) and downstream interfaces.

  \<^bold>\<open>The program.\<close> One goroutine, the engine (\<^verbatim>\<open>engine.go\<close>), runs closures from a bounded channel; all state belongs
  to it. Socket readers, timers, the netlink monitor and the signal handler only post closures. The state is a
  registry of \<^verbatim>\<open>Interface\<close> objects (\<^verbatim>\<open>iface.go\<close>) with up to three services each: a raw ICMPv6 socket for
  Router Discovery (\<^verbatim>\<open>router.go\<close>), a UDP socket for DHCPv6 (\<^verbatim>\<open>dhcpv6.go\<close>), a capture and a ping socket for
  Neighbour Discovery (\<^verbatim>\<open>ndp.go\<close>), and the set of mirrored neighbours: hosts for which the daemon has installed
  proxy entries and a host route in the kernel (\<^verbatim>\<open>netlink.go\<close>). \<^verbatim>\<open>config.go\<close> reads the configuration and starts and
  stops the services; \<^verbatim>\<open>main.go\<close> sets everything up. All paths below are under \<^verbatim>\<open>src/internal/relay\<close> and
  \<^verbatim>\<open>src/cmd/ipv6-relay\<close>.

  \<^bold>\<open>The model.\<close> The state is the record \<open>st\<close>: a heap of \<open>Interface\<close> records addressed by pointers (objects stay
  reachable from readers and timers after they leave the registry), the registry, the mirrored neighbours, the
  timers that are armed, the readers that run, the done channels, the log, and a trace of the sockets that were
  opened and of every call that changes something outside, with its result. A query (a link, address, neighbour
  or route list, a file, the clock) is not in the trace. Everything outside the repository is the record \<open>os\<close> of functions: the answer of a call may depend
  on a counter (\<open>clk\<close>) that every interaction, a query too, advances, so that two equal calls may be answered
  differently; the order in which Go ranges over a map is an answer of the same kind. A handler takes \<open>os\<close> and the state; a handler that can index out
  of range returns an option, \<open>None\<close> being the panic. Closing a closed channel sets \<open>panicked\<close>. The
  daemon as a whole (\<open>world\<close>) has besides the engine's channel and the callbacks of expired timers that wait to post
  to it; a step runs the oldest closure, lets a timer expire, or posts for a callback, a reader, the netlink monitor
  or the signal goroutine. Errors are values
  of sum or option types. Bytes, lifetimes and interface identifiers are words.

  \<^bold>\<open>Theories, in the order of their imports.\<close>
  \<^item> \<open>Prelude\<close>: byte strings with Go's range checks, endianness, permutations of map iterations, folds.
  \<^item> \<open>Netip\<close>: what the code uses of \<^verbatim>\<open>net/netip\<close> and \<^verbatim>\<open>net\<close>. \<open>Platform\<close>: the outside, the trace, and the kernel
    tables (proxy entries, host routes, open descriptors) that a trace leaves behind.
  \<^item> \<open>Log\<close> (\<^verbatim>\<open>log.go\<close>), \<open>Iface\<close> (\<^verbatim>\<open>iface.go\<close>, \<^verbatim>\<open>common.go\<close>, the state), \<open>Rawsock\<close> (\<^verbatim>\<open>rawsock.go\<close>).
  \<^item> \<open>Mirror\<close>: the part of \<^verbatim>\<open>netlink.go\<close> and \<^verbatim>\<open>ndp.go\<close> that installs and removes proxy entries and host routes.
  \<^item> \<open>Ndp\<close>, \<open>Dhcpv6\<close>, \<open>Router\<close>: the three services, setup, packet handlers and one round of each reader.
  \<^item> \<open>Services\<close>: the contract of a service, a table of sockets, as a locale that the three setup functions
    interpret, and what they leave alone.
  \<^item> \<open>Config\<close> (\<^verbatim>\<open>config.go\<close>): configuration, reload, and the invariant \<open>daemon_ok\<close>.
  \<^item> \<open>Netlink\<close> (the rest of \<^verbatim>\<open>netlink.go\<close>): event handlers, reconciliation, sweep.
  \<^item> \<open>Timing\<close>: the invariant of the timers, and the locale of invariants that every handler keeps.
  \<^item> \<open>Descriptors\<close>: open and held file descriptors agree across all handlers.
  \<^item> \<open>Engine\<close> (\<^verbatim>\<open>engine.go\<close>): closures, the channel, the step relation of the daemon and its invariant.
  \<^item> \<open>Command\<close> (\<^verbatim>\<open>main.go\<close>): command line, start-up, exit statuses.
  \<^item> This theory: the properties of the daemon as a whole.

  A definition has the name of the function it models. A loop body or a stretch of a long function that has a
  definition of its own is named after what it does (\<open>mirror_on\<close>, \<open>sweep_neigh\<close>, \<open>router_options\<close>).

  \<^bold>\<open>What is shown.\<close>
  \<^item> Of the whole daemon, for every reachable state and every behaviour of the outside: the invariant and absence
    of panics, the agreement of timers and flags, the solicitation budget, the absence of descriptor leaks, the
    settings of the command line, and that packets of a closed socket that still wait are ignored.
  \<^item> Of the packet handlers: exactly which packets they send, byte for byte, for every input, that they never
    panic, that the Interface-ID a request carries brings the answer back, that relay loops end, that the
    option rewriting equals a reference on the option list, that the two filters pass exactly what they should.
  \<^item> Of the mirror: refinement of set operations on the kernel's tables, on a kernel that accepts the calls
    (\<open>accepted\<close>), and a frame that holds on every kernel; what events, reconciliation and sweep do to it.
  \<^item> Of configuration: what a reload leaves registered, configured and open, and what it does on errors.
  \<^item> Of the command: all exit statuses, and a round trip of the command line.

  Some of the theorems record behaviour that is not what the code or its documentation means:
  \<open>relayServerResponse_uses_link_address\<close> (the reply goes to the link-address, not to the peer-address),
  \<open>Reload_counts_removed_slave\<close> (a downstream interface that is being removed still keeps the upstream ones
  relaying), \<open>Reload_master_sticks\<close> (a reload does not reset the master flag) and \<open>Reload_unreadable\<close> (a
  configuration that cannot be read closes everything).

  \<^bold>\<open>Bounds.\<close> All functions are total. The loop that empties the capture socket runs as often as the backlog that
  \<open>os\<close> gives the socket, after which the receive fails; a packet filter has forward jumps only and its
  interpreter recurses on the rest of the program; option lists are walked with a decreasing offset bound.
  Reader goroutines do not end: their model is one round. Counters (\<^verbatim>\<open>rsTimerN\<close>, \<^verbatim>\<open>raSent\<close>) are unbounded
  integers; the second is shown to stay below 4, the first would need a reload every nanosecond for centuries
  to wrap.

  \<^bold>\<open>Not modelled.\<close> The kernel beyond the answers to calls; the decoding of JSON text and of netlink messages; the
  layout of control message headers in memory (a control message is its level, type and data); the arguments of
  log formats, the usage text and what \<^verbatim>\<open>main\<close> itself prints to stderr; \<^verbatim>\<open>mustParseAddr\<close>, which runs on four
  literals and is represented by its results; interleaving inside a closure or inside one round of a reader
  (both touch only state that is theirs); the end of the process by a signal, which has no successor state.
\<close>

section \<open>A concrete start\<close>

definition demo_env :: env where
  "demo_env = \<lparr>en_root = True, en_syslog = None, en_ipv6 = Inr 3, en_link = None, en_addr = None,
     en_neigh = None, en_route = None\<rparr>"

definition demo_args :: "string list" where
  "demo_args = [''-c'', ''relay.json'', ''-l'', ''0x16'']"

lemma demo_flags: "flag_Parse demo_args cli_init =
  Some \<lparr>cl_config = ''relay.json'', cl_level = Some 22, cl_foreground = False, cl_help = False\<rparr>"
  by code_simp

text \<open>The daemon starts on this command line and runs its first reload.\<close>

lemma demo_run:
  obtains w0 w where "main demo_os demo_env demo_args = Starts w0" "reach demo_os w0 [Ran EvReload] w"
    "step demo_os w0 (Ran EvReload) w" "w_st w = Reload demo_os (w_st w0)" "w_queue w = []"
proof -
  have e: "ipv6Enabled demo_os demo_env s = (True, snd (sys demo_os (CloseFd 3) (s\<lparr>trace := trace s @ [Opened 3]\<rparr>)))"
    "StartNetlinkMonitor demo_env s = (None, startMirrorSweep s)" for s
    by (simp_all add: ipv6Enabled_def StartNetlinkMonitor_def demo_env_def)
  have "demo_args \<noteq> []" by (simp add: demo_args_def)
  then obtain w0 where w0: "main demo_os demo_env demo_args = Starts w0"
    by (simp add: main_def demo_flags Let_def e Post_def NewEngine_def)
  have q: "w_queue w0 = [EvReload]" by (rule main_StartsE [OF w0])
  let ?w = "w0\<lparr>w_st := Reload demo_os (w_st w0), w_queue := []\<rparr>"
  have s: "step demo_os w0 (Ran EvReload) ?w" by (rule step.Run) (simp_all add: q)
  have "reach demo_os w0 [Ran EvReload] ?w" using reach_step [OF reach_refl s] by simp
  with w0 s show ?thesis using that by simp
qed

section \<open>The daemon as a whole\<close>

text \<open>The closure at the head of the channel does not panic.\<close>

lemma world_inv_next:
  assumes "world_inv w" "w_queue w = e # q"
  shows "\<exists>s. run_event os e (w_st w) = Some s"
proof -
  have "mset (w_blocked w @ e # q) = mset (e # w_blocked w @ q)" by simp
  from state_inv_perm [OF this] have "state_inv (1 - count_list (w_blocked w) EvSweep) (e # w_blocked w @ q) (w_st w)"
    using assms by (simp add: world_inv_def)
  then show ?thesis using run_event_keep by blast
qed

text \<open>
  C1. Nothing the outside does can break the daemon. In every state it can reach, whatever the interleaving of
  packets, timers, kernel events and reloads and whatever the system calls answer: the registry, the open
  sockets and the address caches are consistent (every interface is registered under its own name, every socket
  belongs to a registered interface, its channel is open and not shared), no channel was ever closed twice,
  the engine's channel holds at most 1024 closures, and the closure that runs next does not panic.
\<close>

theorem daemon_safe:
  assumes "main os env args = Starts w0" "reach os w0 ls w"
  shows "daemon_ok (w_st w) \<and> \<not> panicked (w_st w) \<and> length (w_queue w) \<le> 1024 \<and>
    (\<forall>e q. w_queue w = e # q \<longrightarrow> (\<exists>s. run_event os e (w_st w) = Some s))"
proof -
  have w: "world_inv w" using reach_keep [OF assms(2) main_world [OF assms(1)]] .
  then have "daemon_ok (w_st w)" by (simp add: world_inv_def state_inv_def)
  moreover from this have "\<not> panicked (w_st w)"
    by (simp add: daemon_ok_def sockets_ok_def a_inv_def socket_table_def)
  moreover have "\<exists>s. run_event os e (w_st w) = Some s" if "w_queue w = e # q" for e q
    using world_inv_next [OF w that] by blast
  ultimately show ?thesis using w by (simp add: world_inv_def)
qed

theorem daemon_safe_witness:
  "\<exists>w0 w. main demo_os demo_env demo_args = Starts w0 \<and> reach demo_os w0 [Ran EvReload] w \<and> daemon_ok (w_st w)"
proof -
  obtain w0 w where "main demo_os demo_env demo_args = Starts w0" "reach demo_os w0 [Ran EvReload] w"
    by (rule demo_run)
  with daemon_safe [of demo_os demo_env demo_args w0] show ?thesis by blast
qed

text \<open>The descriptors that are open are those of the registered interfaces.\<close>

lemma held_registered:
  assumes "daemon_ok s"
  shows "held s = (\<Sum>p\<in>registered s. fds_of (heap s p))"
proof -
  have "fds_of (heap s p) = {#}" if "p \<notin> registered s" for p
  proof -
    have "sock_of k (heap s p) = None" for k
      using assms that by (auto simp: daemon_ok_def sockets_ok_def socket_table_def)
    from this [of RouterSvc] this [of DhcpSvc] this [of NdpSvc] show ?thesis by (simp add: fds_of_def)
  qed
  then show ?thesis
    unfolding held_def using registered_bound [OF assms] by (intro sum.mono_neutral_right) auto
qed

text \<open>
  C2. No descriptor leaks, and no service holds a descriptor that was closed: on a kernel that does not return negative
  descriptors, in every reachable state, the descriptors that are open, counted with multiplicity, are exactly
  those that the services of the registered interfaces hold, whatever failed on the way.
\<close>

theorem daemon_descriptors:
  assumes "main os env args = Starts w0" "reach os w0 ls w" "os_fds os"
  shows "open_fds (trace (w_st w)) = (\<Sum>p\<in>registered (w_st w). fds_of (heap (w_st w) p))"
proof -
  obtain c fd where w: "w_st w0 = startMirrorSweep (snd (sys os (CloseFd fd)
      (main_flags env c\<lparr>cfg_ConfigFile := cl_config c, trace := [Opened fd]\<rparr>)))"
    by (rule main_StartsE [OF assms(1)])
  have "fd_with {#} (w_st w0)"
    unfolding w by (simp add: startMirrorSweep_def AfterFunc_def sys_def tick_def fd_with_def held_def
        main_flags_state fds_of_def zeroInterface_def open_fds_def)
  then have "fd_inv os (w_st w)" using fd_ginv.I_reach [OF assms(2) main_world [OF assms(1)]] by (simp add: fd_inv_def)
  moreover have "daemon_ok (w_st w)"
    using reach_keep [OF assms(2) main_world [OF assms(1)]] by (simp add: world_inv_def state_inv_def)
  ultimately show ?thesis using assms(3) held_registered by (simp add: fd_inv_def fd_with_def)
qed

theorem daemon_descriptors_witness:
  "\<exists>w0 w. main demo_os demo_env demo_args = Starts w0 \<and> reach demo_os w0 [Ran EvReload] w \<and>
     open_fds (trace (w_st w)) = (\<Sum>p\<in>registered (w_st w). fds_of (heap (w_st w) p))"
proof -
  obtain w0 w where d: "main demo_os demo_env demo_args = Starts w0" "reach demo_os w0 [Ran EvReload] w"
    by (rule demo_run)
  have "os_fds demo_os" by (simp add: os_fds_def demo_os_def)
  from daemon_descriptors [OF d this] d show ?thesis by blast
qed

text \<open>
  C16. Timers and flags agree in every reachable state: a reconciliation is under way, as a timer, as an
  expired timer's callback that waits for the channel or as a posted closure, exactly once if the flag
  \<^verbatim>\<open>reconcileScheduled\<close> is set and not at all otherwise, so none is lost and none is doubled; and the periodic
  sweep is always armed exactly once, or its callback is about to post the sweep and arm it again.
\<close>

theorem daemon_reconciles:
  assumes "main os env args = Starts w0" "reach os w0 ls w"
  shows "timers_of ReconcileTimer (w_st w) + count_list (w_blocked w) EvReconcile + count_list (w_queue w) EvReconcile =
      of_bool (reconcileScheduled (w_st w)) \<and>
    timers_of SweepTick (w_st w) + count_list (w_blocked w) EvSweep = 1"
  using reach_keep [OF assms(2) main_world [OF assms(1)]] by (auto simp: world_inv_def state_inv_def timer_inv_def)

theorem daemon_reconciles_witness:
  "\<exists>w0 w. main demo_os demo_env demo_args = Starts w0 \<and> reach demo_os w0 [Ran EvReload] w \<and>
     timers_of SweepTick (w_st w) + count_list (w_blocked w) EvSweep = 1"
proof -
  obtain w0 w where d: "main demo_os demo_env demo_args = Starts w0" "reach demo_os w0 [Ran EvReload] w"
    by (rule demo_run)
  from daemon_reconciles [OF this] d show ?thesis by blast
qed

lemma solicits_bound:
  assumes "world_inv w"
  shows "let i = heap (w_st w) p;
      due = timers_of (SolicitTimer p (rsTimerN i)) (w_st w) + count_list (w_blocked w @ w_queue w) (EvSolicit p (rsTimerN i))
    in 0 \<le> raSent i \<and> raSent i \<le> 3 \<and> due \<le> 1 \<and> (raSent i = 3 \<longrightarrow> due = 0)"
proof -
  let ?q = "queued (w_blocked w @ w_queue w)"
  have "solicit_ok ?q (w_st w)" using assms by (simp add: world_inv_def state_inv_def timer_inv_def)
  then have "0 \<le> raSent (heap (w_st w) p) \<and> raSent (heap (w_st w) p) \<le> 3 \<and>
      pending ?q (w_st w) p \<le> 1 \<and> (pending ?q (w_st w) p = 1 \<longrightarrow> raSent (heap (w_st w) p) < 3)"
    unfolding solicit_ok_def by simp
  then show ?thesis by (auto simp: Let_def pending_def queued_def)
qed

lemma solicit_after_count: "solicit_after s p gen n again t \<Longrightarrow> raSent (heap t p) = n"
  by (auto simp: solicit_after_def dest: coreD(17))

text \<open>What running a solicitation closure does, in a state of the daemon.\<close>

lemma solicits_step:
  assumes "world_inv w" "step os w (Ran (EvSolicit p g)) w'"
  defines "i \<equiv> heap (w_st w) p" and "j \<equiv> heap (w_st w') p"
  shows "(trace (w_st w') = trace (w_st w) \<and> raSent j = raSent i) \<or>
    (g = rsTimerN i \<and> raSent i < 3 \<and>
     (\<exists>c r. rs_call os (clk (w_st w)) i = [c] \<and> trace (w_st w') = trace (w_st w) @ [Did c r] \<and>
        raSent j = (if r = None then raSent i + 1 else raSent i)))"
proof -
  from assms(2) obtain q where q: "w_queue w = EvSolicit p g # q" and t: "w_st w' = solicitTimerFire os p g (w_st w)"
    by (rule step_RunE) (auto dest: eng.next_contents)
  show ?thesis
  proof (cases "soliciting i g")
    case False
    then show ?thesis using solicitTimerFire_spec [where s = "w_st w" and p = p and gen = g and os = os] t
      by (simp add: i_def j_def)
  next
    case True
    then have g: "g = rsTimerN i" by (simp add: soliciting_def)
    have "raSent i < 3" using solicits_bound [OF assms(1), of p] q g by (auto simp: Let_def i_def)
    note S = solicitTimerFire_spec [where s = "w_st w" and p = p and gen = g and os = os, folded t i_def]
    show ?thesis
    proof (cases "fst (getLinkLocalAddr p (w_st w))")
      case None
      then have "trace (w_st w') = trace (w_st w)" "solicit_after (w_st w) p g (raSent i) True (w_st w')"
        using S True by simp_all
      then show ?thesis using solicit_after_count unfolding j_def by blast
    next
      case (Some ll)
      then obtain c r where "rs_call os (clk (w_st w)) i = [c]" "trace (w_st w') = trace (w_st w) @ [Did c r]"
        "solicit_after (w_st w) p g (if r = None then raSent i + 1 else raSent i) (r \<noteq> None \<or> raSent i + 1 < maxRtrSolicitations) (w_st w')"
        using S True by auto
      then show ?thesis using g \<open>raSent i < 3\<close> solicit_after_count unfolding j_def by blast
    qed
  qed
qed

text \<open>
  C15. The solicitation budget of RFC 4861, for the solicitations of the daemon's own timer: in every reachable
  state and for every interface the count is at most three, at most one firing is due for the current
  generation (as a timer, as an expired timer's callback or as a posted closure), and none once the count is
  three. A firing that runs makes no call at all, or, with the count below three, exactly one, the Router
  Solicitation on the interface's own socket, which counts if and only if it succeeded. No other closure
  changes the count, unless it starts the Router Discovery service of that interface again and so resets it
  to 0. (A solicitation of a downstream host that is relayed upstream, and a send that failed, do not count.)
\<close>

theorem daemon_solicits:
  assumes "main os env args = Starts w0" "reach os w0 ls w"
  shows "let i = heap (w_st w) p;
      due = timers_of (SolicitTimer p (rsTimerN i)) (w_st w) + count_list (w_blocked w @ w_queue w) (EvSolicit p (rsTimerN i))
    in 0 \<le> raSent i \<and> raSent i \<le> 3 \<and> due \<le> 1 \<and> (raSent i = 3 \<longrightarrow> due = 0) \<and>
      (\<forall>g w'. step os w (Ran (EvSolicit p g)) w' \<longrightarrow>
        (trace (w_st w') = trace (w_st w) \<and> raSent (heap (w_st w') p) = raSent i) \<or>
        (g = rsTimerN i \<and> raSent i < 3 \<and>
         (\<exists>c r. rs_call os (clk (w_st w)) i = [c] \<and> trace (w_st w') = trace (w_st w) @ [Did c r] \<and>
            raSent (heap (w_st w') p) = (if r = None then raSent i + 1 else raSent i)))) \<and>
      (\<forall>e w'. step os w (Ran e) w' \<and> (\<forall>g. e \<noteq> EvSolicit p g) \<and> p < nextPtr (w_st w) \<longrightarrow>
        raSent (heap (w_st w') p) = raSent i \<or>
        (raSent (heap (w_st w') p) = 0 \<and> restarted p (nextChan (w_st w)) (w_st w')))"
proof -
  have w: "world_inv w" using reach_keep [OF assms(2) main_world [OF assms(1)]] .
  then have d: "daemon_ok (w_st w)" by (simp add: world_inv_def state_inv_def)
  have "raSent (heap (w_st w') p) = raSent (heap (w_st w) p) \<or>
        (raSent (heap (w_st w') p) = 0 \<and> restarted p (nextChan (w_st w)) (w_st w'))"
    if "step os w (Ran e) w'" "\<forall>g. e \<noteq> EvSolicit p g" "p < nextPtr (w_st w)" for e w'
    using that(1) by (rule step_RunE) (use run_event_count [OF _ d that(3, 2)] in auto)
  with solicits_bound [OF w, of p] solicits_step [OF w] show ?thesis unfolding Let_def by blast
qed

theorem daemon_solicits_witness:
  "\<exists>w0 w. main demo_os demo_env demo_args = Starts w0 \<and> reach demo_os w0 [Ran EvReload] w \<and> raSent (heap (w_st w) 0) \<le> 3"
proof -
  obtain w0 w where d: "main demo_os demo_env demo_args = Starts w0" "reach demo_os w0 [Ran EvReload] w"
    by (rule demo_run)
  from daemon_solicits [OF this, of 0] d show ?thesis by (auto simp: Let_def)
qed

text \<open>
  C19. The settings of the command line hold for the life of the process. In every reachable state the file that
  \<^verbatim>\<open>-c\<close> named is the configuration file, and every reload keeps only interfaces that an entry of that file, as it
  is read at that moment, names, and sets them up as that entry says (the decoder giving no name twice). Once
  \<^verbatim>\<open>-l\<close> was given, the log level is the one it gave (cut to three bits), in every reachable state and whatever the files say.
\<close>

theorem daemon_settings:
  assumes "main os env args = Starts w0" "reach os w0 ls w" "flag_Parse args cli_init = Some cl"
  shows "cfg_ConfigFile (w_st w) = cl_config cl \<and>
    (json_ok os \<longrightarrow> (\<forall>w'. step os w (Ran EvReload) w' \<longrightarrow> (\<forall>(m, p) \<in> set (interfaces (w_st w')).
       \<exists>js obj. config_read os (Suc (clk (w_st w))) (cl_config cl) = Some js \<and> (m, obj) \<in> set js \<and>
         configured_by obj (heap (w_st w') p)))) \<and>
    (\<forall>n. cl_level cl = Some n \<longrightarrow> logLevel (lg (w_st w)) = n AND 0x7)"
proof -
  obtain c fd where c: "flag_Parse args cli_init = Some c" and
    w: "w_st w0 = startMirrorSweep (snd (sys os (CloseFd fd) (main_flags env c\<lparr>cfg_ConfigFile := cl_config c, trace := [Opened fd]\<rparr>)))"
    by (rule main_StartsE [OF assms(1)])
  have c: "c = cl" using c assms(3) by simp
  have "cfg_ConfigFile (w_st w0) = cl_config cl"
    by (simp add: w c startMirrorSweep_def AfterFunc_def sys_def tick_def)
  from file_ginv.I_reach [OF assms(2) main_world [OF assms(1)] this]
  have f: "cfg_ConfigFile (w_st w) = cl_config cl" .
  have d: "daemon_ok (w_st w)"
    using reach_keep [OF assms(2) main_world [OF assms(1)]] by (simp add: world_inv_def state_inv_def)
  have "\<exists>js obj. config_read os (Suc (clk (w_st w))) (cl_config cl) = Some js \<and> (m, obj) \<in> set js \<and>
         configured_by obj (heap (w_st w') p)"
    if "json_ok os" "step os w (Ran EvReload) w'" "(m, p) \<in> set (interfaces (w_st w'))" for w' m p
  proof -
    have "w_st w' = Reload os (w_st w)" using that(2) by (rule step_RunE) auto
    then show ?thesis
      using Reload_spec [OF d that(1)] that(3) f by (cases "config_read os (Suc (clk (w_st w))) (cl_config cl)") auto
  qed
  moreover have "logLevel (lg (w_st w)) = n AND 0x7" if "cl_level cl = Some n" for n
  proof -
    have "cfg_LogLevelCmdline (w_st w0) \<and> logLevel (lg (w_st w0)) = n AND 0x7"
      by (simp add: w c that startMirrorSweep_def AfterFunc_def sys_def tick_def main_flags_state)
    from level_ginv.I_reach [OF assms(2) main_world [OF assms(1)] this] show ?thesis by simp
  qed
  ultimately show ?thesis using f by blast
qed

text \<open>C19 at the start, on the command line of the example: its first reload reads that file.\<close>

theorem daemon_settings_witness:
  "\<exists>w0 w. main demo_os demo_env demo_args = Starts w0 \<and> step demo_os w0 (Ran EvReload) w \<and>
     cfg_ConfigFile (w_st w0) = ''relay.json'' \<and> logLevel (lg (w_st w0)) = LogInfo \<and>
     fst ` set (interfaces (w_st w)) \<subseteq> {''lan'', ''wan''}"
proof -
  obtain w0 w where d: "main demo_os demo_env demo_args = Starts w0" "step demo_os w0 (Ran EvReload) w"
    by (rule demo_run)
  note S = daemon_settings [OF d(1) reach_refl demo_flags]
  have "\<forall>(m, p) \<in> set (interfaces (w_st w)). m \<in> {''lan'', ''wan''}"
    using S d(2) demo_json_ok by (fastforce simp: demo_config_read demo_json_def)
  then have "fst ` set (interfaces (w_st w)) \<subseteq> {''lan'', ''wan''}" by auto
  with S d show ?thesis by auto
qed

end
